theory Spec2Isabelle
  imports Complex_Main "HOL-Library.Sublist" "HOL-Library.Log_Nat"
begin

section \<open>Data model of the provider portal\<close>

text \<open>
  The types of \<^verbatim>\<open>provider_portal.tsx\<close>. A TypeScript string is a \<open>string\<close>;
  ISO dates stay strings, as the source keeps them. Field names are the source's,
  prefixed where two record types share a name or the name is reserved
  (\<^verbatim>\<open>id\<close>, \<^verbatim>\<open>note\<close>, \<^verbatim>\<open>from\<close>, \<^verbatim>\<open>at\<close>).
  A \<^verbatim>\<open>number\<close> field holds the value of a finite IEEE-754 double, as a rational.
\<close>

datatype Route = Login | Dashboard | Offers | Messages | Reports | Profile

datatype OfferStatus = Pending | Accepted | Declined

record Offer =
  offer_id :: string
  projectTitle :: string
  holderName :: string
  budget :: rat
  timelineMonths :: rat
  technology :: string
  receivedAt :: string
  status :: OfferStatus
  offer_note :: "string option"

datatype Sender = Provider | Holder

record ChatMessage =
  msg_id :: string
  msg_from :: Sender
  msg_body :: string
  msg_at :: string

record Conversation =
  conv_id :: string
  conv_holderName :: string
  holderInitials :: string
  conv_projectTitle :: string
  lastSeenAt :: string
  messages :: "ChatMessage list"

text \<open>
  \<^verbatim>\<open>Partial<Offer>\<close>: every key may be absent (\<open>None\<close>). The optional
  \<^verbatim>\<open>note\<close> may also be present with the value \<^verbatim>\<open>undefined\<close> (\<open>Some None\<close>).
\<close>

record OfferPatch =
  p_id :: "string option"
  p_projectTitle :: "string option"
  p_holderName :: "string option"
  p_budget :: "rat option"
  p_timelineMonths :: "rat option"
  p_technology :: "string option"
  p_receivedAt :: "string option"
  p_status :: "OfferStatus option"
  p_note :: "string option option"

definition empty_patch :: OfferPatch where
  "empty_patch = \<lparr> p_id = None, p_projectTitle = None, p_holderName = None,
     p_budget = None, p_timelineMonths = None, p_technology = None,
     p_receivedAt = None, p_status = None, p_note = None \<rparr>"

text \<open>The object literal \<^verbatim>\<open>{ status: s }\<close> of \<^verbatim>\<open>setStatusFor\<close>.\<close>

definition status_patch :: "OfferStatus \<Rightarrow> OfferPatch" where
  "status_patch s = empty_patch \<lparr> p_status := Some s \<rparr>"

text \<open>The spread \<^verbatim>\<open>{ ...o, ...next }\<close>: the keys of \<^verbatim>\<open>next\<close> win.\<close>

definition orElse :: "'a option \<Rightarrow> 'a \<Rightarrow> 'a" where
  "orElse v d = (case v of None \<Rightarrow> d | Some x \<Rightarrow> x)"

definition spread :: "Offer \<Rightarrow> OfferPatch \<Rightarrow> Offer" where
  "spread o' n = \<lparr>
     offer_id = orElse (p_id n) (offer_id o'),
     projectTitle = orElse (p_projectTitle n) (projectTitle o'),
     holderName = orElse (p_holderName n) (holderName o'),
     budget = orElse (p_budget n) (budget o'),
     timelineMonths = orElse (p_timelineMonths n) (timelineMonths o'),
     technology = orElse (p_technology n) (technology o'),
     receivedAt = orElse (p_receivedAt n) (receivedAt o'),
     status = orElse (p_status n) (status o'),
     offer_note = orElse (p_note n) (offer_note o') \<rparr>"

section \<open>Strings\<close>

text \<open>
  A JavaScript string is carried as the bytes of its UTF-8 encoding: a \<open>string\<close> here is
  a well-formed UTF-8 text, and a character outside ASCII is two to four \<open>char\<close>s.

  \<^verbatim>\<open>trim\<close> strips, from both ends, the code points of \<^verbatim>\<open>WhiteSpace\<close> and
  \<^verbatim>\<open>LineTerminator\<close>: U+0009 to U+000D, U+0020, U+00A0, U+1680, U+2000 to U+200A,
  U+2028, U+2029, U+202F, U+205F, U+3000 and U+FEFF. \<open>ws_codes\<close> lists their encodings,
  \<open>strip\<close> removes leading ones for as long as there is one, and the end of the string
  is stripped on the reversed bytes.
\<close>

definition ws_codes :: "string list" where
  "ws_codes = [
     [CHR 0x09], [CHR 0x0A], [CHR 0x0B], [CHR 0x0C], [CHR 0x0D], [CHR 0x20],
     [CHR 0xC2, CHR 0xA0], [CHR 0xE1, CHR 0x9A, CHR 0x80],
     [CHR 0xE2, CHR 0x80, CHR 0x80], [CHR 0xE2, CHR 0x80, CHR 0x81],
     [CHR 0xE2, CHR 0x80, CHR 0x82], [CHR 0xE2, CHR 0x80, CHR 0x83],
     [CHR 0xE2, CHR 0x80, CHR 0x84], [CHR 0xE2, CHR 0x80, CHR 0x85],
     [CHR 0xE2, CHR 0x80, CHR 0x86], [CHR 0xE2, CHR 0x80, CHR 0x87],
     [CHR 0xE2, CHR 0x80, CHR 0x88], [CHR 0xE2, CHR 0x80, CHR 0x89],
     [CHR 0xE2, CHR 0x80, CHR 0x8A], [CHR 0xE2, CHR 0x80, CHR 0xA8],
     [CHR 0xE2, CHR 0x80, CHR 0xA9], [CHR 0xE2, CHR 0x80, CHR 0xAF],
     [CHR 0xE2, CHR 0x81, CHR 0x9F], [CHR 0xE3, CHR 0x80, CHR 0x80],
     [CHR 0xEF, CHR 0xBB, CHR 0xBF] ]"

function strip :: "string list \<Rightarrow> string \<Rightarrow> string" where
  "strip codes s =
     (case find (\<lambda>w. w \<noteq> [] \<and> prefix w s) codes of
        None \<Rightarrow> s
      | Some w \<Rightarrow> strip codes (drop (length w) s))"
  by pat_completeness auto
termination
proof (relation "measure (\<lambda>(codes, s). length s)")
  show "wf (measure (\<lambda>(codes, s). length s))"
    by simp
next
  fix codes :: "string list" and s w :: string
  assume "find (\<lambda>w. w \<noteq> [] \<and> prefix w s) codes = Some w"
  then have "w \<noteq> []" "prefix w s"
    by (auto simp: find_Some_iff)
  then have "0 < length w" "length w \<le> length s"
    by (simp_all add: prefix_length_le)
  then have "length (drop (length w) s) < length s"
    unfolding length_drop by arith
  then show "((codes, drop (length w) s), (codes, s)) \<in> measure (\<lambda>(codes, s). length s)"
    by simp
qed

declare strip.simps [simp del]

definition trim :: "string \<Rightarrow> string" where
  "trim s = rev (strip (map rev ws_codes) (rev (strip ws_codes s)))"

text \<open>
  \<^verbatim>\<open>toLowerCase\<close> maps a string through the case mappings of the Unicode tables. The
  functions that call it take it as the parameter \<open>lower\<close>. \<open>ascii_lower\<close> is what it does
  to a text whose cased letters are all ASCII (\<open>A\<close>..\<open>Z\<close> become \<open>a\<close>..\<open>z\<close>, every other
  byte stays); the examples, whose texts are of that kind, are evaluated with it.
\<close>

definition ascii_lower_char :: "char \<Rightarrow> char" where
  "ascii_lower_char c = (let n = (of_char c :: nat) in
     if 65 \<le> n \<and> n \<le> 90 then char_of (n + 32) else c)"

definition ascii_lower :: "string \<Rightarrow> string" where
  "ascii_lower s = map ascii_lower_char s"

text \<open>\<^verbatim>\<open>xs.join(sep)\<close>\<close>

fun join :: "string \<Rightarrow> string list \<Rightarrow> string" where
  "join sep [] = []"
| "join sep [x] = x"
| "join sep (x # y # ys) = x @ sep @ join sep (y # ys)"

text \<open>\<^verbatim>\<open>s.includes(q)\<close>: \<open>q\<close> starts at some position of \<open>s\<close>.\<close>

fun str_includes :: "string \<Rightarrow> string \<Rightarrow> bool" where
  "str_includes [] q = (q = [])"
| "str_includes (c # cs) q = (prefix q (c # cs) \<or> str_includes cs q)"

text \<open>Decimal digits of a natural number, as \<^verbatim>\<open>String(n)\<close> prints an integer below \<open>10^21\<close>.\<close>

definition digit_char :: "nat \<Rightarrow> char" where
  "digit_char d = ''0123456789'' ! d"

fun show_nat :: "nat \<Rightarrow> string" where
  "show_nat n = (if n < 10 then [digit_char n]
     else show_nat (n div 10) @ [digit_char (n mod 10)])"

declare show_nat.simps [simp del]

section \<open>Numbers\<close>

text \<open>
  A JavaScript \<^verbatim>\<open>number\<close> is an IEEE-754 binary64 value. A finite one is a rational,
  and an arithmetic operator returns the exact result rounded to the nearest double,
  ties to the even significand. \<open>expo x\<close> is the binary exponent of a positive \<open>x\<close>
  (\<open>2^e \<le> x < 2^(e+1)\<close>), \<open>dexp x\<close> is the exponent \<open>x\<close> is rounded at (that of \<open>\<bar>x\<bar>\<close>,
  and \<open>-1022\<close> in the subnormal range), \<open>rne\<close> rounds to the nearest integer, ties to
  even, and \<open>fl\<close> rounds to a multiple of \<open>2^(dexp x - 52)\<close>: to 53 significant bits,
  or to a multiple of \<open>2^-1074\<close> in the subnormal range. Infinities and NaN are not
  represented: the model is that of results of magnitude below \<open>2^1024\<close>.
\<close>

definition expo :: "rat \<Rightarrow> int" where
  "expo x = (if 1 \<le> x then bitlen \<lfloor>x\<rfloor> - 1 else - bitlen (\<lceil>1 / x\<rceil> - 1))"

definition rne :: "rat \<Rightarrow> int" where
  "rne x = (let f = \<lfloor>x\<rfloor>; r = x - of_int f in
     if r < 1 / 2 then f else if 1 / 2 < r then f + 1 else if even f then f else f + 1)"

definition dexp :: "rat \<Rightarrow> int" where
  "dexp x = max (expo \<bar>x\<bar>) (- 1022)"

definition fl :: "rat \<Rightarrow> rat" where
  "fl x = (if x = 0 then 0 else
     let u = 2 powi (dexp x - 52) in of_int (rne (x / u)) * u)"

text \<open>The operators \<^verbatim>\<open>+\<close>, \<^verbatim>\<open>*\<close> and \<^verbatim>\<open>/\<close> (the last with a divisor that is not zero).\<close>

definition dadd :: "rat \<Rightarrow> rat \<Rightarrow> rat" where
  "dadd x y = fl (x + y)"

definition dmul :: "rat \<Rightarrow> rat \<Rightarrow> rat" where
  "dmul x y = fl (x * y)"

definition ddiv :: "rat \<Rightarrow> rat \<Rightarrow> rat" where
  "ddiv x y = fl (x / y)"

text \<open>An array length as a number: \<^verbatim>\<open>xs.length\<close> is below \<open>2^32\<close>, so the double is exact.\<close>

definition num_of_nat :: "nat \<Rightarrow> rat" where
  "num_of_nat n = fl (of_nat n)"

text \<open>\<^verbatim>\<open>Math.round(x)\<close>: the nearest integer, a tie going up.\<close>

definition Math_round :: "rat \<Rightarrow> int" where
  "Math_round x = \<lfloor>x + 1 / 2\<rfloor>"

text \<open>
  \<^verbatim>\<open>x.toFixed(1)\<close>: the integer \<open>n\<close> with \<open>n / 10\<close> nearest to \<open>x\<close> (the larger one
  at a tie), printed with one digit after the point; a negative \<open>x\<close> prints its sign and
  then \<open>- x\<close>. From \<open>10^21\<close> on JavaScript prints the exponent form of \<^verbatim>\<open>String(x)\<close>
  instead, which is not modelled: the result is \<open>None\<close> there.
\<close>

definition fixed1_digits :: "nat \<Rightarrow> string" where
  "fixed1_digits n = show_nat (n div 10) @ ''.'' @ show_nat (n mod 10)"

definition toFixed1 :: "rat \<Rightarrow> string option" where
  "toFixed1 x =
     (if 10 ^ 21 \<le> \<bar>x\<bar> then None
      else Some ((if x < 0 then ''-'' else []) @ fixed1_digits (nat \<lfloor>10 * \<bar>x\<bar> + 1 / 2\<rfloor>)))"

section \<open>Finite arithmetic\<close>

text \<open>
  The values on which the arithmetic above is that of the code: \<open>is_double x\<close> says that
  \<open>x\<close> is a finite double, and \<open>sums_finite acc xs\<close> that \<open>xs\<close> are finite doubles and
  that adding them to \<open>acc\<close> one after the other, from the left, never reaches
  \<open>2^1024\<close>, where the code's sum becomes an infinity.
\<close>

definition is_double :: "rat \<Rightarrow> bool" where
  "is_double x \<longleftrightarrow> fl x = x \<and> \<bar>x\<bar> < 2 ^ 1024"

fun sums_finite :: "rat \<Rightarrow> rat list \<Rightarrow> bool" where
  "sums_finite acc [] = True"
| "sums_finite acc (x # xs) =
     (is_double x \<and> \<bar>dadd acc x\<bar> < 2 ^ 1024 \<and> sums_finite (dadd acc x) xs)"

section \<open>The store's operations\<close>

record AppState =
  st_route :: Route
  st_email :: string
  st_offers :: "Offer list"
  st_conversations :: "Conversation list"
  selectedConversationId :: "string option"

text \<open>
  \<^verbatim>\<open>setOffers((prev) => prev.map((o) => (o.id === id ? { ...o, ...next } : o)))\<close>
\<close>

definition updateOffer :: "string \<Rightarrow> OfferPatch \<Rightarrow> Offer list \<Rightarrow> Offer list" where
  "updateOffer i n prev = map (\<lambda>o'. if offer_id o' = i then spread o' n else o') prev"

text \<open>
  \<^verbatim>\<open>openChatFor\<close>: \<^verbatim>\<open>conversations.find((c) => c.holderName === holderName)\<close>, and
  the two setters when a conversation was found.
\<close>

definition openChatFor :: "string \<Rightarrow> AppState \<Rightarrow> AppState" where
  "openChatFor h st =
     (case find (\<lambda>c. conv_holderName c = h) (st_conversations st) of
        Some conv \<Rightarrow> st \<lparr> selectedConversationId := Some (conv_id conv), st_route := Messages \<rparr>
      | None \<Rightarrow> st)"

text \<open>
  \<^verbatim>\<open>sendMessage\<close>. Its two reads of the environment are parameters: \<open>rnd36\<close> is
  \<^verbatim>\<open>Math.random().toString(36)\<close>, a string such as \<^verbatim>\<open>0.4fzyo82mvyr\<close>, of which
  \<^verbatim>\<open>slice(2)\<close> drops the first two characters, and \<open>now\<close> is
  \<^verbatim>\<open>new Date().toISOString()\<close>.
\<close>

definition new_message :: "string \<Rightarrow> string \<Rightarrow> string \<Rightarrow> ChatMessage" where
  "new_message rnd36 now b =
     \<lparr> msg_id = drop 2 rnd36, msg_from = Provider, msg_body = b, msg_at = now \<rparr>"

definition sendMessage ::
  "string \<Rightarrow> string \<Rightarrow> string \<Rightarrow> string \<Rightarrow> Conversation list \<Rightarrow> Conversation list" where
  "sendMessage rnd36 now convId b prev =
     map (\<lambda>c. if conv_id c = convId
                then c \<lparr> messages := messages c @ [new_message rnd36 now b] \<rparr> else c) prev"

section \<open>Derived views\<close>

text \<open>
  \<^verbatim>\<open>DashboardPage\<close>: the five constants it computes before rendering.
  \<^verbatim>\<open>total ? ... : 0\<close> takes the second branch when the length is zero.
\<close>

record DashboardStats =
  d_accepted :: nat
  d_pending :: nat
  d_declined :: nat
  d_total :: nat
  acceptanceRate :: int

definition DashboardPage :: "Offer list \<Rightarrow> DashboardStats" where
  "DashboardPage offers =
     (let accepted = length (filter (\<lambda>o'. status o' = Accepted) offers);
          pending = length (filter (\<lambda>o'. status o' = Pending) offers);
          declined = length (filter (\<lambda>o'. status o' = Declined) offers);
          total = length offers
      in \<lparr> d_accepted = accepted, d_pending = pending, d_declined = declined, d_total = total,
           acceptanceRate =
             (if total \<noteq> 0
              then Math_round (dmul (ddiv (num_of_nat accepted) (num_of_nat total)) 100)
              else 0) \<rparr>)"

text \<open>
  \<^verbatim>\<open>ReportsPage\<close>: \<^verbatim>\<open>revenue\<close>, \<^verbatim>\<open>successRate\<close> and \<^verbatim>\<open>avgDuration\<close>
  (the constant \<^verbatim>\<open>satisfaction\<close> is left out); \<^verbatim>\<open>reduce\<close> adds from the left,
  starting at 0.
\<close>

record ReportStats =
  revenue :: rat
  successRate :: int
  avgDuration :: "string option"

definition ReportsPage :: "Offer list \<Rightarrow> ReportStats" where
  "ReportsPage offers =
     \<lparr> revenue = foldl (\<lambda>acc o'. dadd acc (budget o')) 0
                   (filter (\<lambda>o'. status o' = Accepted) offers),
       successRate =
         (if length offers \<noteq> 0
          then Math_round (dmul (ddiv (num_of_nat (length (filter (\<lambda>o'. status o' = Accepted) offers)))
                                      (num_of_nat (length offers))) 100)
          else 0),
       avgDuration =
         (if length offers \<noteq> 0
          then toFixed1 (ddiv (foldl (\<lambda>acc o'. dadd acc (timelineMonths o')) 0 offers)
                              (num_of_nat (length offers)))
          else Some ''0'') \<rparr>"

text \<open>
  \<^verbatim>\<open>filtered\<close> of \<^verbatim>\<open>OffersPage\<close>; the status filter is a status or \<^verbatim>\<open>"all"\<close>,
  and \<open>lower\<close> is \<^verbatim>\<open>toLowerCase\<close>.
\<close>

datatype StatusFilter = AnyStatus | Only OfferStatus

definition filtered ::
  "(string \<Rightarrow> string) \<Rightarrow> Offer list \<Rightarrow> string \<Rightarrow> StatusFilter \<Rightarrow> Offer list" where
  "filtered lower offers query sf =
     (let q = lower (trim query) in
      filter (\<lambda>o'. if q = [] then True
                    else str_includes (lower (join '' ''
                           [projectTitle o', holderName o', technology o', offer_id o'])) q)
        (filter (\<lambda>o'. case sf of AnyStatus \<Rightarrow> True | Only s \<Rightarrow> status o' = s) offers))"

text \<open>
  \<^verbatim>\<open>current\<close> of \<^verbatim>\<open>MessagesPage\<close>:
  \<^verbatim>\<open>conversations.find((c) => c.id === selectedId) ?? conversations[0]\<close>.
  \<^verbatim>\<open>undefined\<close> is \<open>None\<close>; a \<^verbatim>\<open>null\<close> selection equals no id.
\<close>

definition current :: "Conversation list \<Rightarrow> string option \<Rightarrow> Conversation option" where
  "current conversations selectedId =
     (case find (\<lambda>c. Some (conv_id c) = selectedId) conversations of
        Some c \<Rightarrow> Some c
      | None \<Rightarrow> (case conversations of [] \<Rightarrow> None | c # _ \<Rightarrow> Some c))"

text \<open>
  \<^verbatim>\<open>handleSend\<close> of \<^verbatim>\<open>MessagesPage\<close>, on the conversations and the composer's
  \<^verbatim>\<open>value\<close>: it returns both as they are after the call.
  \<^verbatim>\<open>if (!text || !current) return;\<close> leaves them as they are.
\<close>

definition handleSend ::
  "string \<Rightarrow> string \<Rightarrow> Conversation list \<Rightarrow> string option \<Rightarrow> string
     \<Rightarrow> Conversation list \<times> string" where
  "handleSend rnd36 now conversations selectedId value =
     (let text = trim value in
      if text = [] then (conversations, value)
      else case current conversations selectedId of
             None \<Rightarrow> (conversations, value)
           | Some c \<Rightarrow> (sendMessage rnd36 now (conv_id c) text conversations, []))"

section \<open>CSV export\<close>

text \<open>
  A row is an object with string keys, given as its entries in the order of
  \<^verbatim>\<open>Object.keys\<close>; a value is a string, a number, \<^verbatim>\<open>null\<close> or \<^verbatim>\<open>undefined\<close>, and
  reading a key the row does not have gives \<^verbatim>\<open>undefined\<close> (the keys are taken not
  to be names that every object inherits, such as \<^verbatim>\<open>toString\<close>). \<open>num_str\<close> is
  \<^verbatim>\<open>String\<close> on numbers. The download of the blob is the result: the file's name and
  its text, or \<open>None\<close> when the function returns before building anything.
\<close>

datatype 'n cell = CStr string | CNum 'n | CNull | CUndefined

type_synonym 'n row = "(string \<times> 'n cell) list"

definition get_cell :: "'n row \<Rightarrow> string \<Rightarrow> 'n cell" where
  "get_cell r h = (case map_of r h of None \<Rightarrow> CUndefined | Some v \<Rightarrow> v)"

text \<open>\<^verbatim>\<open>String(v ?? "")\<close>\<close>

fun cell_string :: "('n \<Rightarrow> string) \<Rightarrow> 'n cell \<Rightarrow> string" where
  "cell_string num_str (CStr s) = s"
| "cell_string num_str (CNum n) = num_str n"
| "cell_string num_str CNull = []"
| "cell_string num_str CUndefined = []"

definition needs_quotes :: "string \<Rightarrow> bool" where
  "needs_quotes s = (\<exists>c \<in> set s. c = CHR 0x22 \<or> c = CHR '','' \<or> c = CHR 0x0A)"

definition double_quotes :: "string \<Rightarrow> string" where
  "double_quotes s = concat (map (\<lambda>c. if c = CHR 0x22 then [CHR 0x22, CHR 0x22] else [c]) s)"

definition escape :: "('n \<Rightarrow> string) \<Rightarrow> 'n cell \<Rightarrow> string" where
  "escape num_str v =
     (let s = cell_string num_str v in
      if needs_quotes s then [CHR 0x22] @ double_quotes s @ [CHR 0x22] else s)"

text \<open>
  The array that is joined by line feeds: the header line, then a line for each row.
  \<^verbatim>\<open>exportCSV\<close> reads \<^verbatim>\<open>rows[0]\<close> only after it has returned for an empty array.
\<close>

definition csv_lines :: "('n \<Rightarrow> string) \<Rightarrow> string list \<Rightarrow> 'n row list \<Rightarrow> string list" where
  "csv_lines num_str headers rows =
     join '','' headers #
     map (\<lambda>r. join '','' (map (\<lambda>h. escape num_str (get_cell r h)) headers)) rows"

definition exportCSV ::
  "('n \<Rightarrow> string) \<Rightarrow> string \<Rightarrow> 'n row list \<Rightarrow> (string \<times> string) option" where
  "exportCSV num_str filename rows =
     (case rows of
        [] \<Rightarrow> None
      | first # _ \<Rightarrow>
          Some (filename, join [CHR 0x0A] (csv_lines num_str (map fst first) rows)))"

section \<open>Seed data\<close>

definition seedOffers :: "Offer list" where
  "seedOffers = [
     \<lparr> offer_id = ''OF-1029'', projectTitle = ''Smart City Kiosk Network'',
       holderName = ''NEO Holdings'', budget = 1850000, timelineMonths = 6,
       technology = ''IoT Integration'', receivedAt = ''2025-08-03'', status = Pending,
       offer_note = Some ''Looking for end-to-end provider with proven SLA.'' \<rparr>,
     \<lparr> offer_id = ''OF-1034'',
       projectTitle = ''Cloud Migration '' @ [CHR 0xE2, CHR 0x80, CHR 0x93] @ '' Municipal Services'',
       holderName = ''Jeddah Municipality'', budget = 2200000, timelineMonths = 8,
       technology = ''Cloud Solutions'', receivedAt = ''2025-08-12'', status = Accepted,
       offer_note = None \<rparr>,
     \<lparr> offer_id = ''OF-1039'',
       projectTitle = ''Mobile App '' @ [CHR 0xE2, CHR 0x80, CHR 0x93] @ '' Citizen Portal'',
       holderName = ''Najm Tech'', budget = 640000, timelineMonths = 4,
       technology = ''Mobile Development'', receivedAt = ''2025-08-18'', status = Pending,
       offer_note = None \<rparr>,
     \<lparr> offer_id = ''OF-1042'', projectTitle = ''Factory Telemetry Retrofit'',
       holderName = ''Al Noor Steel'', budget = 930000, timelineMonths = 5,
       technology = ''IoT Integration'', receivedAt = ''2025-08-22'', status = Declined,
       offer_note = None \<rparr> ]"

text \<open>
  The seed conversations read the clock five times while the literal is built:
  \<open>stamp k\<close> is the ISO string of the \<open>k\<close>-th read (the time of loading for the two
  \<^verbatim>\<open>lastSeenAt\<close>, and 60, 45 and 120 minutes before it for the three messages).
\<close>

definition seedConversations :: "(nat \<Rightarrow> string) \<Rightarrow> Conversation list" where
  "seedConversations stamp = [
     \<lparr> conv_id = ''C-101'', conv_holderName = ''NEO Holdings'', holderInitials = ''NH'',
       conv_projectTitle = ''Smart City Kiosk Network'', lastSeenAt = stamp 0,
       messages = [
         \<lparr> msg_id = ''m1'', msg_from = Holder,
           msg_body = ''Hi, could you share rough milestones for the kiosk rollout?'',
           msg_at = stamp 1 \<rparr>,
         \<lparr> msg_id = ''m2'', msg_from = Provider,
           msg_body = ''Absolutely. Drafting a 3-phase plan: survey, pilot, scale.'',
           msg_at = stamp 2 \<rparr> ] \<rparr>,
     \<lparr> conv_id = ''C-102'', conv_holderName = ''Jeddah Municipality'', holderInitials = ''JM'',
       conv_projectTitle =
         ''Cloud Migration '' @ [CHR 0xE2, CHR 0x80, CHR 0x93] @ '' Municipal Services'',
       lastSeenAt = stamp 3,
       messages = [
         \<lparr> msg_id = ''m1'', msg_from = Holder,
           msg_body = ''We need RTO <= 30 minutes across regions.'',
           msg_at = stamp 4 \<rparr> ] \<rparr> ]"

text \<open>
  Clock readings for the examples, and the seed conversations after two sends to
  \<open>C-101\<close> for which the random source gave the same number.
\<close>

definition ex_stamp :: "nat \<Rightarrow> string" where
  "ex_stamp k = (if k = 1 then ''2025-09-01T09:00:00.000Z''
                 else if k = 2 then ''2025-09-01T09:15:00.000Z''
                 else if k = 4 then ''2025-09-01T08:00:00.000Z''
                 else ''2025-09-01T10:00:00.000Z'')"

definition ex_now :: string where
  "ex_now = ''2025-09-01T10:05:00.000Z''"

definition ex_later :: string where
  "ex_later = ''2025-09-01T10:06:00.000Z''"

definition sent_once :: "Conversation list" where
  "sent_once = sendMessage ''0.4fzyo82mvyr'' ex_now ''C-101'' ''First.'' (seedConversations ex_stamp)"

definition sent_twice :: "Conversation list" where
  "sent_twice = sendMessage ''0.4fzyo82mvyr'' ex_later ''C-101'' ''Second.'' sent_once"

section \<open>Invariants of the data model\<close>

text \<open>The body of a chat message is not empty, in every conversation.\<close>

definition bodies_nonempty :: "Conversation list \<Rightarrow> bool" where
  "bodies_nonempty convs = (\<forall>c \<in> set convs. \<forall>m \<in> set (messages c). msg_body m \<noteq> [])"

section \<open>The offer filter in the specification's words\<close>

text \<open>
  The specification's reading of the filter, to compare with \<open>filtered\<close>: an offer passes
  when its status is the filter's, or the filter is \<^verbatim>\<open>all\<close>, and the query occurs,
  both sides lower-cased, in the offer's title, holder, technology and id joined by spaces.
  \<open>passes_stated\<close> takes the query as it was typed, \<open>passes_trimmed\<close> takes it trimmed.
\<close>

definition passes_stated ::
  "(string \<Rightarrow> string) \<Rightarrow> string \<Rightarrow> StatusFilter \<Rightarrow> Offer \<Rightarrow> bool" where
  "passes_stated lower query sf o' \<longleftrightarrow>
     (sf = AnyStatus \<or> sf = Only (status o')) \<and>
     sublist (lower query)
       (lower (projectTitle o' @ '' '' @ holderName o' @ '' '' @ technology o' @ '' '' @
          offer_id o'))"

definition passes_trimmed ::
  "(string \<Rightarrow> string) \<Rightarrow> string \<Rightarrow> StatusFilter \<Rightarrow> Offer \<Rightarrow> bool" where
  "passes_trimmed lower query sf o' \<longleftrightarrow> passes_stated lower (trim query) sf o'"

section \<open>An offer collection with an acceptance rate at a tie\<close>

text \<open>Forty offers with ids \<open>OF-2000\<close> to \<open>OF-2039\<close>: the first 23 accepted, the others pending.\<close>

definition tie_offers :: "Offer list" where
  "tie_offers = map (\<lambda>i.
     \<lparr> offer_id = ''OF-'' @ show_nat (2000 + i), projectTitle = ''Project'',
       holderName = ''Holder'', budget = 1000, timelineMonths = 3, technology = ''Cloud'',
       receivedAt = ''2025-08-03'', status = (if i < 23 then Accepted else Pending),
       offer_note = None \<rparr>) [0 ..< 40]"

section \<open>Offer collections for the report aggregates\<close>

text \<open>
  Twenty offers with ids \<open>OF-3000\<close> to \<open>OF-3019\<close>, three of two months and seventeen of
  one month: 23 months in all, a mean of 1.15.
\<close>

definition mean_tie_offers :: "Offer list" where
  "mean_tie_offers = map (\<lambda>i.
     \<lparr> offer_id = ''OF-'' @ show_nat (3000 + i), projectTitle = ''Project'',
       holderName = ''Holder'', budget = 1000, timelineMonths = (if i < 3 then 2 else 1),
       technology = ''Cloud'', receivedAt = ''2025-08-03'', status = Pending,
       offer_note = None \<rparr>) [0 ..< 20]"

text \<open>Three accepted offers with the budgets \<open>2^53\<close>, 1 and 1.\<close>

definition big_budget_offers :: "Offer list" where
  "big_budget_offers = map (\<lambda>(i, b).
     \<lparr> offer_id = i, projectTitle = ''Project'', holderName = ''Holder'', budget = b,
       timelineMonths = 12, technology = ''Cloud'', receivedAt = ''2025-08-03'',
       status = Accepted, offer_note = None \<rparr>)
     [(''OF-4000'', 9007199254740992), (''OF-4001'', 1), (''OF-4002'', 1)]"

section \<open>Updating an offer\<close>

lemma spread_status_patch: "spread o' (status_patch s) = o' \<lparr> status := s \<rparr>"
  by (simp add: spread_def status_patch_def empty_patch_def orElse_def)

lemma updateOffer_length: "length (updateOffer i n offers) = length offers"
  by (simp add: updateOffer_def)

lemma updateOffer_status_nth:
  "k < length offers \<Longrightarrow>
   updateOffer i (status_patch s) offers ! k =
     (if offer_id (offers ! k) = i then (offers ! k) \<lparr> status := s \<rparr> else offers ! k)"
  by (simp add: updateOffer_def spread_status_patch)

text \<open>
  C1. Setting the status of an offer that is in the collection: the collection keeps
  its length, some position holds the offer's id with the new status, at every position
  holding the offer's id the status is the new one and the seven other fields are as
  before, and an offer with another id is the offer that was there.
\<close>

theorem updateOffer_status:
  assumes "o' \<in> set offers"
  shows "let res = updateOffer (offer_id o') (status_patch s) offers in
     length res = length offers \<and>
     (\<exists>k < length offers. offer_id (res ! k) = offer_id o' \<and> status (res ! k) = s) \<and>
     (\<forall>k < length offers.
        if offer_id (offers ! k) = offer_id o'
        then offer_id (res ! k) = offer_id o' \<and> status (res ! k) = s \<and>
             projectTitle (res ! k) = projectTitle (offers ! k) \<and>
             holderName (res ! k) = holderName (offers ! k) \<and>
             budget (res ! k) = budget (offers ! k) \<and>
             timelineMonths (res ! k) = timelineMonths (offers ! k) \<and>
             technology (res ! k) = technology (offers ! k) \<and>
             receivedAt (res ! k) = receivedAt (offers ! k) \<and>
             offer_note (res ! k) = offer_note (offers ! k)
        else res ! k = offers ! k)"
proof -
  from assms obtain k where k: "k < length offers" "offers ! k = o'"
    by (auto simp: in_set_conv_nth)
  then have "offer_id (updateOffer (offer_id o') (status_patch s) offers ! k) = offer_id o' \<and>
      status (updateOffer (offer_id o') (status_patch s) offers ! k) = s"
    by (simp add: updateOffer_status_nth)
  with k(1) have ex: "\<exists>k < length offers.
      offer_id (updateOffer (offer_id o') (status_patch s) offers ! k) = offer_id o' \<and>
      status (updateOffer (offer_id o') (status_patch s) offers ! k) = s"
    by blast
  show ?thesis
    unfolding Let_def using ex by (simp add: updateOffer_length updateOffer_status_nth)
qed

theorem updateOffer_status_witness:
  "seedOffers ! 1 \<in> set seedOffers \<and>
   map status (updateOffer ''OF-1034'' (status_patch Declined) seedOffers) =
     [Pending, Declined, Pending, Declined] \<and>
   map (\<lambda>o'. o' \<lparr> status := Pending \<rparr>)
       (updateOffer ''OF-1034'' (status_patch Declined) seedOffers) =
     map (\<lambda>o'. o' \<lparr> status := Pending \<rparr>) seedOffers"
  using updateOffer_status [of "seedOffers ! 1" seedOffers Declined]
  by (simp add: Let_def seedOffers_def updateOffer_def spread_status_patch)

text \<open>
  C2. An id that no offer of the collection has: the collection is returned as it was,
  for every patch. The operation has no failing branch.
\<close>

theorem updateOffer_no_match:
  assumes "\<forall>o' \<in> set offers. offer_id o' \<noteq> i"
  shows "updateOffer i n offers = offers"
  using assms by (simp add: updateOffer_def map_idI)

theorem updateOffer_no_match_witness:
  "updateOffer ''OF-9999'' (status_patch Accepted) seedOffers = seedOffers"
proof -
  have "\<forall>o' \<in> set seedOffers. offer_id o' \<noteq> ''OF-9999''"
    by (simp add: seedOffers_def)
  then show ?thesis by (rule updateOffer_no_match)
qed

section \<open>Facts about \<open>trim\<close>\<close>

text \<open>
  No whitespace encoding is a proper prefix of another, so stripping removes a run of
  whitespace characters whichever encoding is tried first. A string trims to the empty
  string exactly when it is a run of whitespace characters; in general the trimmed string
  is the string less a run of whitespace at each end, and starts and ends with no
  whitespace character.
\<close>

lemma ws_codes_nonempty: "w \<in> set ws_codes \<Longrightarrow> w \<noteq> []"
  by (auto simp: ws_codes_def)

lemma ws_codes_prefix_free_all:
  "list_all (\<lambda>a. list_all (\<lambda>b. prefix a b \<longrightarrow> a = b) ws_codes) ws_codes"
  by code_simp

lemma ws_codes_prefix_free:
  "a \<in> set ws_codes \<Longrightarrow> b \<in> set ws_codes \<Longrightarrow> prefix a b \<Longrightarrow> a = b"
  using ws_codes_prefix_free_all by (simp add: list_all_iff)

lemma strip_Nil: "strip codes [] = []"
proof -
  have "find (\<lambda>w. w \<noteq> [] \<and> prefix w []) codes = None"
    by (simp add: find_None_iff)
  then show ?thesis by (subst strip.simps) simp
qed

lemma strip_code:
  assumes "w \<in> set ws_codes"
  shows "strip ws_codes (w @ s) = strip ws_codes s"
proof -
  have "w \<noteq> [] \<and> prefix w (w @ s)"
    using assms ws_codes_nonempty by simp
  with assms have "find (\<lambda>x. x \<noteq> [] \<and> prefix x (w @ s)) ws_codes \<noteq> None"
    unfolding find_None_iff by blast
  then obtain v where v: "find (\<lambda>x. x \<noteq> [] \<and> prefix x (w @ s)) ws_codes = Some v"
    by auto
  then have vs: "v \<in> set ws_codes" "prefix v (w @ s)"
    by (auto simp: find_Some_iff)
  have "prefix v w \<or> prefix w v"
    using vs(2) prefix_same_cases [of v "w @ s" w] by auto
  then have "v = w"
    using ws_codes_prefix_free [OF vs(1) assms] ws_codes_prefix_free [OF assms vs(1)] by auto
  then show ?thesis
    using v by (subst strip.simps) simp
qed

lemma strip_blank:
  "set ws \<subseteq> set ws_codes \<Longrightarrow> strip ws_codes (concat ws) = []"
  by (induction ws) (simp_all add: strip_Nil strip_code)

lemma trim_blank: "set ws \<subseteq> set ws_codes \<Longrightarrow> trim (concat ws) = []"
  by (simp add: trim_def strip_blank strip_Nil)

lemma strip_cases:
  "(find (\<lambda>w. w \<noteq> [] \<and> prefix w s) codes = None \<and> strip codes s = s) \<or>
   (\<exists>w \<in> set codes. w \<noteq> [] \<and> prefix w s \<and>
      find (\<lambda>w. w \<noteq> [] \<and> prefix w s) codes = Some w \<and>
      strip codes s = strip codes (drop (length w) s))"
proof (cases "find (\<lambda>w. w \<noteq> [] \<and> prefix w s) codes")
  case None
  then show ?thesis by (subst strip.simps) simp
next
  case (Some w)
  then have "w \<in> set codes" "w \<noteq> []" "prefix w s"
    by (auto simp: find_Some_iff)
  moreover have "strip codes s = strip codes (drop (length w) s)"
    using Some by (subst strip.simps) simp
  ultimately show ?thesis using Some by blast
qed

lemma strip_empty_concat:
  "strip codes s = [] \<Longrightarrow> \<exists>ws. set ws \<subseteq> set codes \<and> s = concat ws"
proof (induction "length s" arbitrary: s rule: less_induct)
  case less
  from strip_cases [of s codes] show ?case
  proof (elim disjE conjE bexE)
    assume "strip codes s = s"
    with less.prems have "s = concat []" by simp
    then show ?thesis by (intro exI [of _ "[]"]) simp
  next
    fix w
    assume w: "w \<in> set codes" "w \<noteq> []" "prefix w s"
      and st: "strip codes s = strip codes (drop (length w) s)"
    from w(3) obtain r where r: "s = w @ r" by (auto simp: prefix_def)
    then have d: "drop (length w) s = r" by simp
    have "length r < length s" using r w(2) by simp
    moreover have "strip codes r = []" using less.prems st d by simp
    ultimately obtain ws where "set ws \<subseteq> set codes" "r = concat ws"
      using less.hyps by blast
    then have "set (w # ws) \<subseteq> set codes \<and> s = concat (w # ws)"
      using w(1) r by simp
    then show ?thesis by blast
  qed
qed

lemma strip_idem: "strip codes (strip codes s) = strip codes s"
proof (induction "length s" arbitrary: s rule: less_induct)
  case less
  from strip_cases [of s codes] show ?case
  proof (elim disjE conjE bexE)
    assume "strip codes s = s"
    then show ?thesis by simp
  next
    fix w
    assume w: "w \<noteq> []" "prefix w s"
      and st: "strip codes s = strip codes (drop (length w) s)"
    from w(2) have "length w \<le> length s" by (rule prefix_length_le)
    then have "length (drop (length w) s) < length s"
      using w(1) unfolding length_drop by (cases w) simp_all
    then have "strip codes (strip codes (drop (length w) s)) = strip codes (drop (length w) s)"
      by (rule less.hyps)
    then show ?thesis by (simp add: st)
  qed
qed

lemma trim_empty_iff:
  "trim s = [] \<longleftrightarrow> (\<exists>ws. set ws \<subseteq> set ws_codes \<and> s = concat ws)"
proof
  assume "trim s = []"
  then have "strip (map rev ws_codes) (rev (strip ws_codes s)) = []"
    by (simp add: trim_def)
  then obtain rs where rs: "set rs \<subseteq> set (map rev ws_codes)" "rev (strip ws_codes s) = concat rs"
    using strip_empty_concat by blast
  have "strip ws_codes s = rev (concat rs)"
    using rs(2) by (metis rev_rev_ident)
  also have "\<dots> = concat (map rev (rev rs))"
    by (simp add: rev_concat rev_map)
  finally have t: "strip ws_codes s = concat (map rev (rev rs))" .
  have "set (map rev (rev rs)) \<subseteq> set ws_codes"
    using rs(1) by auto
  then have "strip ws_codes (concat (map rev (rev rs))) = []"
    by (rule strip_blank)
  then have "strip ws_codes (strip ws_codes s) = []"
    by (simp only: t)
  then have "strip ws_codes s = []"
    by (simp only: strip_idem)
  then show "\<exists>ws. set ws \<subseteq> set ws_codes \<and> s = concat ws"
    by (rule strip_empty_concat)
next
  assume "\<exists>ws. set ws \<subseteq> set ws_codes \<and> s = concat ws"
  then show "trim s = []" using trim_blank by blast
qed


lemma strip_decomp: "\<exists>a. set a \<subseteq> set codes \<and> s = concat a @ strip codes s"
proof (induction "length s" arbitrary: s rule: less_induct)
  case less
  from strip_cases [of s codes] show ?case
  proof (elim disjE conjE bexE)
    assume "strip codes s = s"
    then have "set [] \<subseteq> set codes \<and> s = concat [] @ strip codes s" by simp
    then show ?thesis by blast
  next
    fix w
    assume w: "w \<in> set codes" "w \<noteq> []" "prefix w s"
      and st: "strip codes s = strip codes (drop (length w) s)"
    from w(3) obtain r where r: "s = w @ r" by (auto simp: prefix_def)
    then have d: "drop (length w) s = r" by simp
    have "length r < length s" using r w(2) by simp
    then obtain a where a: "set a \<subseteq> set codes" "r = concat a @ strip codes r"
      using less.hyps by blast
    have "s = concat (w # a) @ strip codes s"
      using a(2) r st d by simp
    moreover have "set (w # a) \<subseteq> set codes" using a(1) w(1) by simp
    ultimately show ?thesis by blast
  qed
qed

lemma strip_no_prefix:
  "w \<in> set codes \<Longrightarrow> w \<noteq> [] \<Longrightarrow> \<not> prefix w (strip codes s)"
proof (induction "length s" arbitrary: s rule: less_induct)
  case less
  from strip_cases [of s codes] show ?case
  proof (elim disjE conjE bexE)
    assume "find (\<lambda>w. w \<noteq> [] \<and> prefix w s) codes = None" "strip codes s = s"
    then show ?thesis using less.prems by (auto simp: find_None_iff)
  next
    fix v
    assume v: "v \<noteq> []" "prefix v s"
      and st: "strip codes s = strip codes (drop (length v) s)"
    from v(2) have "length v \<le> length s" by (rule prefix_length_le)
    then have "length (drop (length v) s) < length s"
      using v(1) unfolding length_drop by (cases v) simp_all
    then have "\<not> prefix w (strip codes (drop (length v) s))"
      using less.prems by (rule less.hyps)
    then show ?thesis by (simp add: st)
  qed
qed

lemma trim_decomp:
  "\<exists>a b. set a \<subseteq> set ws_codes \<and> set b \<subseteq> set ws_codes \<and> s = concat a @ trim s @ concat b"
proof -
  obtain a where a: "set a \<subseteq> set ws_codes" "s = concat a @ strip ws_codes s"
    using strip_decomp by blast
  obtain r where r: "set r \<subseteq> set (map rev ws_codes)"
      "rev (strip ws_codes s) = concat r @ strip (map rev ws_codes) (rev (strip ws_codes s))"
    using strip_decomp by blast
  have "strip ws_codes s = rev (concat r @ strip (map rev ws_codes) (rev (strip ws_codes s)))"
    using r(2) by (metis rev_rev_ident)
  also have "\<dots> = trim s @ concat (map rev (rev r))"
    by (simp add: trim_def rev_concat rev_map)
  finally have "s = concat a @ trim s @ concat (map rev (rev r))"
    using a(2) by simp
  moreover have "set (map rev (rev r)) \<subseteq> set ws_codes"
    using r(1) by auto
  ultimately show ?thesis using a(1) by blast
qed

lemma trim_no_ws:
  assumes "w \<in> set ws_codes"
  shows "\<not> prefix w (trim s)" and "\<not> suffix w (trim s)"
proof -
  have ne: "w \<noteq> []" using assms by (rule ws_codes_nonempty)
  have "rev w \<in> set (map rev ws_codes)" "rev w \<noteq> []"
    using assms ne by simp_all
  then have "\<not> prefix (rev w) (strip (map rev ws_codes) (rev (strip ws_codes s)))"
    by (rule strip_no_prefix)
  then show "\<not> suffix w (trim s)"
    by (simp add: trim_def suffix_to_prefix)
  obtain r where r: "rev (strip ws_codes s) =
      concat r @ strip (map rev ws_codes) (rev (strip ws_codes s))"
    using strip_decomp by blast
  have "strip ws_codes s = rev (concat r @ strip (map rev ws_codes) (rev (strip ws_codes s)))"
    using r by (metis rev_rev_ident)
  then have t: "strip ws_codes s = trim s @ rev (concat r)"
    by (simp add: trim_def)
  have "\<not> prefix w (strip ws_codes s)"
    using assms ne by (rule strip_no_prefix)
  then show "\<not> prefix w (trim s)"
    unfolding t by (auto simp: prefix_def)
qed

section \<open>Sending a message\<close>

lemma sendMessage_length: "length (sendMessage rnd36 now cid b convs) = length convs"
  by (simp add: sendMessage_def)

lemma sendMessage_nth:
  "k < length convs \<Longrightarrow>
   sendMessage rnd36 now cid b convs ! k =
     (if conv_id (convs ! k) = cid
      then (convs ! k) \<lparr> messages := messages (convs ! k) @ [new_message rnd36 now b] \<rparr>
      else convs ! k)"
  by (simp add: sendMessage_def)

lemma sendMessage_no_match:
  "\<forall>c \<in> set convs. conv_id c \<noteq> cid \<Longrightarrow> sendMessage rnd36 now cid b convs = convs"
  by (simp add: sendMessage_def map_idI)

lemma sendMessage_bodies:
  assumes "bodies_nonempty convs" "b \<noteq> []"
  shows "bodies_nonempty (sendMessage rnd36 now cid b convs)"
  using assms by (auto simp: bodies_nonempty_def sendMessage_def new_message_def)

text \<open>
  C3, as stated, fails on the id. The message's id is what the random source gave, less
  its first two characters; nothing compares it with the ids already in the conversation.
  Two sends to \<open>C-101\<close> that draw the same number leave it with two messages of the same
  id.
\<close>

theorem sendMessage_id_not_fresh:
  "map msg_id (messages (sent_once ! 0)) = [''m1'', ''m2'', ''4fzyo82mvyr''] \<and>
   map msg_id (messages (sent_twice ! 0)) = [''m1'', ''m2'', ''4fzyo82mvyr'', ''4fzyo82mvyr''] \<and>
   \<not> distinct (map msg_id (messages (sent_twice ! 0)))"
  by (simp add: sent_twice_def sent_once_def seedConversations_def sendMessage_def new_message_def)

text \<open>
  C3, amended. Sending to a conversation id appends one message to every conversation
  with that id: the message has the id drawn from the random source, the sender
  \<open>Provider\<close>, the given body and the current time; the messages that were there come
  first, in their order, so the count grows by one; the conversation's other fields and
  every other conversation are as before. The ids of the conversation's messages stay
  distinct when they were and the drawn id is not among them. With an id that no
  conversation has, the collection is returned as it was.
\<close>

theorem sendMessage_appends:
  "(let res = sendMessage rnd36 now cid b convs;
        msg = \<lparr> msg_id = drop 2 rnd36, msg_from = Provider, msg_body = b, msg_at = now \<rparr>
    in length res = length convs \<and>
       (\<forall>k < length convs.
          if conv_id (convs ! k) = cid
          then messages (res ! k) = messages (convs ! k) @ [msg] \<and>
               length (messages (res ! k)) = length (messages (convs ! k)) + 1 \<and>
               take (length (messages (convs ! k))) (messages (res ! k)) = messages (convs ! k) \<and>
               conv_id (res ! k) = conv_id (convs ! k) \<and>
               conv_holderName (res ! k) = conv_holderName (convs ! k) \<and>
               holderInitials (res ! k) = holderInitials (convs ! k) \<and>
               conv_projectTitle (res ! k) = conv_projectTitle (convs ! k) \<and>
               lastSeenAt (res ! k) = lastSeenAt (convs ! k) \<and>
               (distinct (map msg_id (messages (convs ! k))) \<and>
                drop 2 rnd36 \<notin> set (map msg_id (messages (convs ! k)))
                  \<longrightarrow> distinct (map msg_id (messages (res ! k))))
          else res ! k = convs ! k) \<and>
       ((\<forall>c \<in> set convs. conv_id c \<noteq> cid) \<longrightarrow> res = convs))"
  unfolding Let_def
  by (simp add: sendMessage_length sendMessage_nth sendMessage_no_match new_message_def)

theorem sendMessage_appends_witness:
  "(let convs = seedConversations ex_stamp;
        res = sendMessage ''0.4fzyo82mvyr'' ex_now ''C-102'' ''On it.'' convs
    in res ! 0 = convs ! 0 \<and>
       messages (res ! 1) = messages (convs ! 1) @
         [\<lparr> msg_id = ''4fzyo82mvyr'', msg_from = Provider, msg_body = ''On it.'', msg_at = ex_now \<rparr>] \<and>
       distinct (map msg_id (messages (res ! 1))) \<and>
       sendMessage ''0.4fzyo82mvyr'' ex_now ''C-999'' ''On it.'' convs = convs)"
  using sendMessage_appends [of "''0.4fzyo82mvyr''" ex_now "''C-102''" "''On it.''"
      "seedConversations ex_stamp"]
    sendMessage_appends [of "''0.4fzyo82mvyr''" ex_now "''C-999''" "''On it.''"
      "seedConversations ex_stamp"]
  unfolding Let_def
  by (simp add: seedConversations_def sendMessage_def new_message_def)

section \<open>The conversation on screen\<close>

lemma find_None_all: "find P xs = None \<longleftrightarrow> (\<forall>x \<in> set xs. \<not> P x)"
  by (auto simp: find_None_iff)

text \<open>
  C7. When a conversation has the selected id, the first such conversation is the current
  one; when none has (a stale id, or no selection), the current one is the first of the
  collection; there is no current conversation exactly when the collection is empty.
  The function is total.
\<close>

theorem current_resolution:
  "(\<forall>c. find (\<lambda>c. Some (conv_id c) = sel) convs = Some c \<longrightarrow>
       current convs sel = Some c \<and> c \<in> set convs \<and> Some (conv_id c) = sel) \<and>
   ((\<exists>c \<in> set convs. Some (conv_id c) = sel) \<longrightarrow>
       (\<exists>c \<in> set convs. current convs sel = Some c \<and> Some (conv_id c) = sel)) \<and>
   ((\<forall>c \<in> set convs. Some (conv_id c) \<noteq> sel) \<longrightarrow>
       current convs sel = (case convs of [] \<Rightarrow> None | c # _ \<Rightarrow> Some c)) \<and>
   (current convs sel = None \<longleftrightarrow> convs = [])"
proof (cases "find (\<lambda>c. Some (conv_id c) = sel) convs")
  case None
  then have no: "\<forall>c \<in> set convs. Some (conv_id c) \<noteq> sel"
    by (simp add: find_None_all)
  have cur: "current convs sel = (case convs of [] \<Rightarrow> None | c # _ \<Rightarrow> Some c)"
    using None by (simp add: current_def)
  show ?thesis using None no cur by (auto split: list.splits)
next
  case (Some c)
  then have c: "c \<in> set convs" "Some (conv_id c) = sel"
    by (auto simp: find_Some_iff)
  have cur: "current convs sel = Some c" using Some by (simp add: current_def)
  show ?thesis using Some c cur by auto
qed

theorem current_resolution_witness:
  "(let convs = seedConversations ex_stamp in
    current convs (Some ''C-102'') = Some (convs ! 1) \<and>
    current convs (Some ''C-999'') = Some (convs ! 0) \<and>
    current convs None = Some (convs ! 0) \<and>
    current [] (Some ''C-101'') = None)"
proof -
  let ?convs = "seedConversations ex_stamp"
  have f: "find (\<lambda>c. Some (conv_id c) = Some ''C-102'') ?convs = Some (?convs ! 1)"
    by (simp add: seedConversations_def)
  have n: "\<forall>c \<in> set ?convs. Some (conv_id c) \<noteq> Some ''C-999''"
    by (simp add: seedConversations_def)
  have m: "\<forall>c \<in> set ?convs. Some (conv_id c) \<noteq> None"
    by simp
  have h: "(case ?convs of [] \<Rightarrow> None | c # _ \<Rightarrow> Some c) = Some (?convs ! 0)"
    by (simp add: seedConversations_def)
  from current_resolution [of "Some ''C-102''" ?convs] f
  have a: "current ?convs (Some ''C-102'') = Some (?convs ! 1)"
    by blast
  from current_resolution [of "Some ''C-999''" ?convs] n h
  have b: "current ?convs (Some ''C-999'') = Some (?convs ! 0)"
    by simp
  from current_resolution [of None ?convs] m h
  have c: "current ?convs None = Some (?convs ! 0)"
    by simp
  from current_resolution [of "Some ''C-101''" "[]"]
  have d: "current [] (Some ''C-101'') = None"
    by blast
  from a b c d show ?thesis unfolding Let_def by blast
qed

section \<open>Opening the chat of a holder\<close>

text \<open>
  C8. When a conversation has the holder's name, the first such conversation becomes the
  selected one and the route becomes \<open>Messages\<close>, the rest of the state staying as it
  is; when none has, the state is returned as it was. On the seed conversations,
  \<open>NEO Holdings\<close> selects \<open>C-101\<close>.
\<close>

theorem openChatFor_spec:
  "((\<exists>c \<in> set (st_conversations st). conv_holderName c = h) \<longrightarrow>
      (\<exists>k < length (st_conversations st).
          conv_holderName (st_conversations st ! k) = h \<and>
          (\<forall>j < k. conv_holderName (st_conversations st ! j) \<noteq> h) \<and>
          openChatFor h st =
            st \<lparr> selectedConversationId := Some (conv_id (st_conversations st ! k)),
                 st_route := Messages \<rparr>)) \<and>
   ((\<forall>c \<in> set (st_conversations st). conv_holderName c \<noteq> h) \<longrightarrow> openChatFor h st = st) \<and>
   (st_conversations st = seedConversations stamp \<longrightarrow>
      openChatFor ''NEO Holdings'' st =
        st \<lparr> selectedConversationId := Some ''C-101'', st_route := Messages \<rparr>)"
proof (intro conjI impI)
  assume "\<exists>c \<in> set (st_conversations st). conv_holderName c = h"
  then have "find (\<lambda>c. conv_holderName c = h) (st_conversations st) \<noteq> None"
    by (simp add: find_None_all)
  then obtain c where f: "find (\<lambda>c. conv_holderName c = h) (st_conversations st) = Some c"
    by auto
  then obtain k where k: "k < length (st_conversations st)"
      "conv_holderName (st_conversations st ! k) = h" "c = st_conversations st ! k"
      "\<forall>j < k. conv_holderName (st_conversations st ! j) \<noteq> h"
    by (auto simp: find_Some_iff)
  have "openChatFor h st = st \<lparr> selectedConversationId := Some (conv_id c), st_route := Messages \<rparr>"
    using f by (simp add: openChatFor_def)
  with k show "\<exists>k < length (st_conversations st).
          conv_holderName (st_conversations st ! k) = h \<and>
          (\<forall>j < k. conv_holderName (st_conversations st ! j) \<noteq> h) \<and>
          openChatFor h st =
            st \<lparr> selectedConversationId := Some (conv_id (st_conversations st ! k)),
                 st_route := Messages \<rparr>"
    by auto
next
  assume "\<forall>c \<in> set (st_conversations st). conv_holderName c \<noteq> h"
  then have "find (\<lambda>c. conv_holderName c = h) (st_conversations st) = None"
    by (simp add: find_None_all)
  then show "openChatFor h st = st" by (simp add: openChatFor_def)
next
  assume "st_conversations st = seedConversations stamp"
  then show "openChatFor ''NEO Holdings'' st =
        st \<lparr> selectedConversationId := Some ''C-101'', st_route := Messages \<rparr>"
    by (simp add: openChatFor_def seedConversations_def)
qed

theorem openChatFor_spec_witness:
  "(let st = \<lparr> st_route = Offers, st_email = ''provider@example.com'', st_offers = seedOffers,
               st_conversations = seedConversations ex_stamp,
               selectedConversationId = Some ''C-102'' \<rparr>
    in st_conversations st = seedConversations ex_stamp \<and>
       openChatFor ''NEO Holdings'' st =
         st \<lparr> selectedConversationId := Some ''C-101'', st_route := Messages \<rparr> \<and>
       openChatFor ''Jeddah Municipality'' st = st \<lparr> st_route := Messages \<rparr> \<and>
       openChatFor ''Nobody'' st = st)"
proof -
  let ?st = "\<lparr> st_route = Offers, st_email = ''provider@example.com'', st_offers = seedOffers,
               st_conversations = seedConversations ex_stamp,
               selectedConversationId = Some ''C-102'' \<rparr>"
  have s: "st_conversations ?st = seedConversations ex_stamp" by simp
  have n: "\<forall>c \<in> set (st_conversations ?st). conv_holderName c \<noteq> ''Nobody''"
    by (simp add: seedConversations_def)
  from openChatFor_spec [of ?st "''NEO Holdings''" ex_stamp] s
  have a: "openChatFor ''NEO Holdings'' ?st =
      ?st \<lparr> selectedConversationId := Some ''C-101'', st_route := Messages \<rparr>"
    by blast
  from openChatFor_spec [of ?st "''Nobody''" ex_stamp] n
  have b: "openChatFor ''Nobody'' ?st = ?st"
    by blast
  have c: "openChatFor ''Jeddah Municipality'' ?st = ?st \<lparr> st_route := Messages \<rparr>"
    by (simp add: openChatFor_def seedConversations_def)
  from s a b c show ?thesis unfolding Let_def by blast
qed

section \<open>The composer's send handler\<close>

lemma current_None_iff: "current convs sel = None \<longleftrightarrow> convs = []"
  by (simp add: current_def split: option.splits list.splits)

lemma handleSend_cases:
  "handleSend rnd36 now convs sel draft =
     (if trim draft = [] \<or> current convs sel = None then (convs, draft)
      else (sendMessage rnd36 now (conv_id (the (current convs sel))) (trim draft) convs, []))"
  by (auto simp: handleSend_def Let_def split: option.splits)

text \<open>
  C10. The handler trims the draft as \<^verbatim>\<open>String.prototype.trim\<close> does: the trimmed draft
  is the draft less a run of whitespace characters at each end, and it neither starts nor
  ends with one. The handler returns the conversations and the draft as they are when the
  trimmed draft is empty or no conversation is current, which is exactly when the draft
  is a run of whitespace characters (the empty draft among them) or there is no
  conversation at all. Otherwise it sends the trimmed draft to the current conversation
  and clears the draft: every message it adds is the provider's and has the trimmed
  draft, which is not empty, as its body. So conversations whose messages all have a body
  keep that property.
\<close>

theorem handleSend_nonempty_body:
  "(trim draft = [] \<or> current convs sel = None \<longrightarrow>
      handleSend rnd36 now convs sel draft = (convs, draft)) \<and>
   (\<forall>c. trim draft \<noteq> [] \<and> current convs sel = Some c \<longrightarrow>
      handleSend rnd36 now convs sel draft =
        (sendMessage rnd36 now (conv_id c) (trim draft) convs, [])) \<and>
   (\<forall>k < length convs.
      \<forall>m \<in> set (drop (length (messages (convs ! k)))
                     (messages (fst (handleSend rnd36 now convs sel draft) ! k))).
        msg_body m \<noteq> [] \<and> msg_body m = trim draft \<and> msg_from m = Provider) \<and>
   (bodies_nonempty convs \<longrightarrow> bodies_nonempty (fst (handleSend rnd36 now convs sel draft))) \<and>
   (handleSend rnd36 now convs sel draft = (convs, draft) \<longleftrightarrow>
      (\<exists>ws. set ws \<subseteq> set ws_codes \<and> draft = concat ws) \<or> convs = []) \<and>
   (\<exists>a b. set a \<subseteq> set ws_codes \<and> set b \<subseteq> set ws_codes \<and>
      draft = concat a @ trim draft @ concat b) \<and>
   (\<forall>w \<in> set ws_codes. \<not> prefix w (trim draft) \<and> \<not> suffix w (trim draft))"
proof -
  have main: "(trim draft = [] \<or> current convs sel = None \<longrightarrow>
      handleSend rnd36 now convs sel draft = (convs, draft)) \<and>
   (\<forall>c. trim draft \<noteq> [] \<and> current convs sel = Some c \<longrightarrow>
      handleSend rnd36 now convs sel draft =
        (sendMessage rnd36 now (conv_id c) (trim draft) convs, [])) \<and>
   (\<forall>k < length convs.
      \<forall>m \<in> set (drop (length (messages (convs ! k)))
                     (messages (fst (handleSend rnd36 now convs sel draft) ! k))).
        msg_body m \<noteq> [] \<and> msg_body m = trim draft \<and> msg_from m = Provider) \<and>
   (bodies_nonempty convs \<longrightarrow> bodies_nonempty (fst (handleSend rnd36 now convs sel draft)))"
  proof (cases "trim draft = [] \<or> current convs sel = None")
    case True
    then have "handleSend rnd36 now convs sel draft = (convs, draft)"
      by (simp add: handleSend_cases)
    with True show ?thesis by auto
  next
    case False
    then obtain c where c: "current convs sel = Some c" and t: "trim draft \<noteq> []"
      by auto
    have hs: "handleSend rnd36 now convs sel draft =
        (sendMessage rnd36 now (conv_id c) (trim draft) convs, [])"
      using c t by (simp add: handleSend_cases)
    have new: "\<forall>k < length convs.
        \<forall>m \<in> set (drop (length (messages (convs ! k)))
                       (messages (sendMessage rnd36 now (conv_id c) (trim draft) convs ! k))).
          msg_body m \<noteq> [] \<and> msg_body m = trim draft \<and> msg_from m = Provider"
      using t by (simp add: sendMessage_nth new_message_def)
    have inv: "bodies_nonempty convs \<longrightarrow>
        bodies_nonempty (sendMessage rnd36 now (conv_id c) (trim draft) convs)"
      using t by (simp add: sendMessage_bodies)
    show ?thesis using c t new inv by (simp add: hs)
  qed
  have noop: "handleSend rnd36 now convs sel draft = (convs, draft) \<longleftrightarrow>
      (\<exists>ws. set ws \<subseteq> set ws_codes \<and> draft = concat ws) \<or> convs = []"
  proof (cases "trim draft = [] \<or> current convs sel = None")
    case True
    then have "handleSend rnd36 now convs sel draft = (convs, draft)"
      by (simp add: handleSend_cases)
    with True show ?thesis by (simp add: trim_empty_iff current_None_iff)
  next
    case False
    have "trim [] = []" by (simp add: trim_def strip_Nil)
    with False have "draft \<noteq> []" by auto
    then have "handleSend rnd36 now convs sel draft \<noteq> (convs, draft)"
      using False by (simp add: handleSend_cases)
    with False show ?thesis by (simp add: trim_empty_iff current_None_iff)
  qed
  have ends: "\<forall>w \<in> set ws_codes. \<not> prefix w (trim draft) \<and> \<not> suffix w (trim draft)"
    by (simp add: trim_no_ws)
  from main noop trim_decomp [of draft] ends show ?thesis by blast
qed

theorem handleSend_nonempty_body_witness:
  "(let convs = seedConversations ex_stamp;
        blank = [CHR 0x20, CHR 0xC2, CHR 0xA0, CHR 0x09, CHR 0xE3, CHR 0x80, CHR 0x80]
    in
    bodies_nonempty convs \<and>
    trim ''   '' = [] \<and> trim [CHR 0xC2, CHR 0xA0] = [] \<and> trim '' On it. '' = ''On it.'' \<and>
    handleSend ''0.4fzyo82mvyr'' ex_now convs (Some ''C-102'') ''   '' = (convs, ''   '') \<and>
    handleSend ''0.4fzyo82mvyr'' ex_now convs (Some ''C-102'') [CHR 0xC2, CHR 0xA0] =
      (convs, [CHR 0xC2, CHR 0xA0]) \<and>
    handleSend ''0.4fzyo82mvyr'' ex_now convs (Some ''C-102'') blank = (convs, blank) \<and>
    handleSend ''0.4fzyo82mvyr'' ex_now [] None ''Hello'' = ([], ''Hello'') \<and>
    handleSend ''0.4fzyo82mvyr'' ex_now convs (Some ''C-102'') '' On it. '' =
      (sendMessage ''0.4fzyo82mvyr'' ex_now ''C-102'' ''On it.'' convs, []) \<and>
    bodies_nonempty (fst (handleSend ''0.4fzyo82mvyr'' ex_now convs (Some ''C-102'') '' On it. '')))"
proof -
  let ?convs = "seedConversations ex_stamp"
  let ?blank = "[CHR 0x20, CHR 0xC2, CHR 0xA0, CHR 0x09, CHR 0xE3, CHR 0x80, CHR 0x80]"
  have inv: "bodies_nonempty ?convs"
    by (simp add: bodies_nonempty_def seedConversations_def)
  have t1: "trim ''   '' = []"
    by (simp add: trim_def ws_codes_def strip.simps)
  have t2: "trim '' On it. '' = ''On it.''"
    by (simp add: trim_def ws_codes_def strip.simps)
  have t3: "trim [CHR 0xC2, CHR 0xA0] = []"
    by (simp add: trim_def ws_codes_def strip.simps)
  have t4: "set [[CHR 0x20], [CHR 0xC2, CHR 0xA0], [CHR 0x09], [CHR 0xE3, CHR 0x80, CHR 0x80]]
      \<subseteq> set ws_codes \<and>
    ?blank = concat [[CHR 0x20], [CHR 0xC2, CHR 0xA0], [CHR 0x09], [CHR 0xE3, CHR 0x80, CHR 0x80]]"
    by (simp add: ws_codes_def)
  have c0: "current [] None = None" by (simp add: current_def)
  have c1: "current ?convs (Some ''C-102'') = Some (?convs ! 1)"
    by (simp add: current_def seedConversations_def)
  have id1: "conv_id (?convs ! 1) = ''C-102''" by (simp add: seedConversations_def)
  note a = handleSend_nonempty_body [of "''   ''" ?convs "Some ''C-102''" "''0.4fzyo82mvyr''" ex_now]
  note a' = handleSend_nonempty_body [of "[CHR 0xC2, CHR 0xA0]" ?convs "Some ''C-102''"
      "''0.4fzyo82mvyr''" ex_now]
  note a'' = handleSend_nonempty_body [of ?blank ?convs "Some ''C-102''" "''0.4fzyo82mvyr''" ex_now]
  note b = handleSend_nonempty_body [of "''Hello''" "[]" None "''0.4fzyo82mvyr''" ex_now]
  note c = handleSend_nonempty_body [of "'' On it. ''" ?convs "Some ''C-102''" "''0.4fzyo82mvyr''" ex_now]
  have "handleSend ''0.4fzyo82mvyr'' ex_now ?convs (Some ''C-102'') ''   '' = (?convs, ''   '')"
    using a t1 by blast
  moreover have "handleSend ''0.4fzyo82mvyr'' ex_now ?convs (Some ''C-102'') [CHR 0xC2, CHR 0xA0] =
      (?convs, [CHR 0xC2, CHR 0xA0])"
    using a' t3 by blast
  moreover have "handleSend ''0.4fzyo82mvyr'' ex_now ?convs (Some ''C-102'') ?blank = (?convs, ?blank)"
    using a'' t4 by blast
  moreover have "handleSend ''0.4fzyo82mvyr'' ex_now [] None ''Hello'' = ([], ''Hello'')"
    using b c0 by blast
  moreover have "handleSend ''0.4fzyo82mvyr'' ex_now ?convs (Some ''C-102'') '' On it. '' =
      (sendMessage ''0.4fzyo82mvyr'' ex_now ''C-102'' ''On it.'' ?convs, [])"
    using c t2 c1 id1 by auto
  moreover have "bodies_nonempty (fst (handleSend ''0.4fzyo82mvyr'' ex_now ?convs (Some ''C-102'') '' On it. ''))"
    using c inv by blast
  ultimately show ?thesis using inv t1 t2 t3 unfolding Let_def by blast
qed

section \<open>CSV export\<close>

lemma double_quotes_Cons:
  "double_quotes (c # s) = (if c = CHR 0x22 then [CHR 0x22, CHR 0x22] else [c]) @ double_quotes s"
  by (simp add: double_quotes_def)

lemma double_quotes_count: "count_list (double_quotes s) (CHR 0x22) = 2 * count_list s (CHR 0x22)"
  by (induction s) (simp_all add: double_quotes_Cons, simp add: double_quotes_def)

lemma double_quotes_others:
  "filter (\<lambda>c. c \<noteq> CHR 0x22) (double_quotes s) = filter (\<lambda>c. c \<noteq> CHR 0x22) s"
  by (induction s) (simp_all add: double_quotes_Cons, simp add: double_quotes_def)

lemma exportCSV_nonempty:
  "rows \<noteq> [] \<Longrightarrow>
   exportCSV num_str filename rows =
     Some (filename, join [CHR 0x0A] (csv_lines num_str (map fst (hd rows)) rows))"
  by (cases rows) (simp_all add: exportCSV_def)

lemma csv_lines_length: "length (csv_lines num_str headers rows) = Suc (length rows)"
  by (simp add: csv_lines_def)

lemma csv_lines_header: "csv_lines num_str headers rows ! 0 = join '','' headers"
  by (simp add: csv_lines_def)

lemma csv_lines_row:
  "i < length rows \<Longrightarrow>
   csv_lines num_str headers rows ! Suc i =
     join '','' (map (\<lambda>h. escape num_str (get_cell (rows ! i) h)) headers)"
  by (simp add: csv_lines_def)

lemma get_cell_own_keys:
  "distinct (map fst r) \<Longrightarrow> map (get_cell r) (map fst r) = map snd r"
  by (induction r) (auto simp: get_cell_def rev_image_eqI)

lemma csv_lines_uniform_row:
  assumes "i < length rows" "map fst (rows ! i) = headers" "distinct (map fst (rows ! i))"
  shows "csv_lines num_str headers rows ! Suc i =
     join '','' (map (\<lambda>kv. escape num_str (snd kv)) (rows ! i))"
proof -
  have "map (\<lambda>h. escape num_str (get_cell (rows ! i) h)) headers =
      map (escape num_str) (map (get_cell (rows ! i)) (map fst (rows ! i)))"
    using assms(2) by simp
  also have "\<dots> = map (escape num_str) (map snd (rows ! i))"
    using assms(3) by (simp only: get_cell_own_keys)
  finally show ?thesis
    using assms(1) by (simp add: csv_lines_row comp_def)
qed

text \<open>
  C9. For rows that are not empty, the export delivers the file name and the lines joined
  by line feeds: the first line is the keys of the first row joined by commas, and line
  \<open>i + 1\<close> is row \<open>i\<close> read at those keys, each value escaped, joined by commas; for a
  row with the first row's keys, each once, that is the row's own values in their
  order. A value is printed as a string (\<^verbatim>\<open>null\<close> and \<^verbatim>\<open>undefined\<close> as the empty
  string, a number through \<open>num_str\<close>); a string with a comma, a double quote or a line
  feed is put between double quotes, its own double quotes doubled and its other
  characters kept, and any other string is printed as it is. For no rows nothing is
  delivered. The row \<^verbatim>\<open>{a: 1, b: "x,y"}\<close> gives the lines \<^verbatim>\<open>a,b\<close> and \<^verbatim>\<open>1,"x,y"\<close>.
\<close>

theorem exportCSV_document:
  "(rows \<noteq> [] \<longrightarrow>
      (\<exists>ls. exportCSV num_str filename rows = Some (filename, join [CHR 0x0A] ls) \<and>
         length ls = Suc (length rows) \<and>
         ls ! 0 = join '','' (map fst (hd rows)) \<and>
         (\<forall>i < length rows.
            ls ! Suc i =
              join '','' (map (\<lambda>h. escape num_str (get_cell (rows ! i) h)) (map fst (hd rows))) \<and>
            (map fst (rows ! i) = map fst (hd rows) \<and> distinct (map fst (rows ! i)) \<longrightarrow>
               ls ! Suc i = join '','' (map (\<lambda>kv. escape num_str (snd kv)) (rows ! i)))))) \<and>
   exportCSV num_str filename [] = None \<and>
   (\<forall>s. escape num_str (CStr s) =
      (if \<exists>c \<in> set s. c = CHR 0x22 \<or> c = CHR '','' \<or> c = CHR 0x0A
       then [CHR 0x22] @ double_quotes s @ [CHR 0x22] else s) \<and>
      count_list (double_quotes s) (CHR 0x22) = 2 * count_list s (CHR 0x22) \<and>
      filter (\<lambda>c. c \<noteq> CHR 0x22) (double_quotes s) = filter (\<lambda>c. c \<noteq> CHR 0x22) s) \<and>
   (\<forall>n. escape num_str (CNum n) = escape num_str (CStr (num_str n))) \<and>
   escape num_str CNull = [] \<and> escape num_str CUndefined = [] \<and>
   exportCSV show_nat ''t.csv'' [[(''a'', CNum 1), (''b'', CStr ''x,y'')]] =
     Some (''t.csv'', ''a,b'' @ [CHR 0x0A] @ ''1,'' @ [CHR 0x22] @ ''x,y'' @ [CHR 0x22])"
proof -
  let ?ls = "csv_lines num_str (map fst (hd rows)) rows"
  have rows: "\<forall>i < length rows.
         ?ls ! Suc i =
           join '','' (map (\<lambda>h. escape num_str (get_cell (rows ! i) h)) (map fst (hd rows))) \<and>
         (map fst (rows ! i) = map fst (hd rows) \<and> distinct (map fst (rows ! i)) \<longrightarrow>
            ?ls ! Suc i = join '','' (map (\<lambda>kv. escape num_str (snd kv)) (rows ! i)))"
    using csv_lines_row csv_lines_uniform_row by blast
  have doc: "rows \<noteq> [] \<longrightarrow>
      (\<exists>ls. exportCSV num_str filename rows = Some (filename, join [CHR 0x0A] ls) \<and>
         length ls = Suc (length rows) \<and>
         ls ! 0 = join '','' (map fst (hd rows)) \<and>
         (\<forall>i < length rows.
            ls ! Suc i =
              join '','' (map (\<lambda>h. escape num_str (get_cell (rows ! i) h)) (map fst (hd rows))) \<and>
            (map fst (rows ! i) = map fst (hd rows) \<and> distinct (map fst (rows ! i)) \<longrightarrow>
               ls ! Suc i = join '','' (map (\<lambda>kv. escape num_str (snd kv)) (rows ! i)))))"
  proof
    assume "rows \<noteq> []"
    then have "exportCSV num_str filename rows = Some (filename, join [CHR 0x0A] ?ls)"
      by (rule exportCSV_nonempty)
    moreover have "length ?ls = Suc (length rows)" by (rule csv_lines_length)
    moreover have "?ls ! 0 = join '','' (map fst (hd rows))" by (rule csv_lines_header)
    ultimately show "\<exists>ls. exportCSV num_str filename rows = Some (filename, join [CHR 0x0A] ls) \<and>
         length ls = Suc (length rows) \<and>
         ls ! 0 = join '','' (map fst (hd rows)) \<and>
         (\<forall>i < length rows.
            ls ! Suc i =
              join '','' (map (\<lambda>h. escape num_str (get_cell (rows ! i) h)) (map fst (hd rows))) \<and>
            (map fst (rows ! i) = map fst (hd rows) \<and> distinct (map fst (rows ! i)) \<longrightarrow>
               ls ! Suc i = join '','' (map (\<lambda>kv. escape num_str (snd kv)) (rows ! i))))"
      using rows by blast
  qed
  have none: "exportCSV num_str filename [] = None"
    by (simp add: exportCSV_def)
  have str: "\<forall>s. escape num_str (CStr s) =
      (if \<exists>c \<in> set s. c = CHR 0x22 \<or> c = CHR '','' \<or> c = CHR 0x0A
       then [CHR 0x22] @ double_quotes s @ [CHR 0x22] else s) \<and>
      count_list (double_quotes s) (CHR 0x22) = 2 * count_list s (CHR 0x22) \<and>
      filter (\<lambda>c. c \<noteq> CHR 0x22) (double_quotes s) = filter (\<lambda>c. c \<noteq> CHR 0x22) s"
    by (simp add: escape_def needs_quotes_def double_quotes_count double_quotes_others)
  have num: "\<forall>n. escape num_str (CNum n) = escape num_str (CStr (num_str n))"
    by (simp add: escape_def)
  have nul: "escape num_str CNull = []" "escape num_str CUndefined = []"
    by (simp_all add: escape_def needs_quotes_def)
  have ex: "exportCSV show_nat ''t.csv'' [[(''a'', CNum 1), (''b'', CStr ''x,y'')]] =
     Some (''t.csv'', ''a,b'' @ [CHR 0x0A] @ ''1,'' @ [CHR 0x22] @ ''x,y'' @ [CHR 0x22])"
    by (simp add: exportCSV_def csv_lines_def escape_def needs_quotes_def double_quotes_def
        get_cell_def show_nat.simps digit_char_def)
  show ?thesis
    using doc none str num nul ex by blast
qed

theorem exportCSV_document_witness:
  "(let rows = [[(''metric'', CStr (''Say '' @ [CHR 0x22] @ ''hi'' @ [CHR 0x22])), (''value'', CNum 25)],
                [(''metric'', CNull), (''value'', CNum (7::nat))]]
    in rows \<noteq> [] \<and>
       (\<exists>ls. exportCSV show_nat ''p.csv'' rows = Some (''p.csv'', join [CHR 0x0A] ls) \<and>
          length ls = 3 \<and> ls ! 0 = ''metric,value'') \<and>
       exportCSV show_nat ''p.csv'' rows =
         Some (''p.csv'', ''metric,value'' @ [CHR 0x0A] @
               [CHR 0x22] @ ''Say '' @ [CHR 0x22, CHR 0x22] @ ''hi'' @ [CHR 0x22, CHR 0x22, CHR 0x22] @
               '',25'' @ [CHR 0x0A] @ '',7''))"
proof -
  let ?rows = "[[(''metric'', CStr (''Say '' @ [CHR 0x22] @ ''hi'' @ [CHR 0x22])), (''value'', CNum 25)],
                [(''metric'', CNull), (''value'', CNum (7::nat))]]"
  have ne: "?rows \<noteq> []" by simp
  from exportCSV_document [of ?rows show_nat "''p.csv''"] ne
  have a: "\<exists>ls. exportCSV show_nat ''p.csv'' ?rows = Some (''p.csv'', join [CHR 0x0A] ls) \<and>
      length ls = 3 \<and> ls ! 0 = ''metric,value''"
    by auto
  have b: "exportCSV show_nat ''p.csv'' ?rows =
      Some (''p.csv'', ''metric,value'' @ [CHR 0x0A] @
        [CHR 0x22] @ ''Say '' @ [CHR 0x22, CHR 0x22] @ ''hi'' @ [CHR 0x22, CHR 0x22, CHR 0x22] @
        '',25'' @ [CHR 0x0A] @ '',7'')"
    by (simp add: exportCSV_def csv_lines_def escape_def needs_quotes_def double_quotes_def
        get_cell_def show_nat.simps digit_char_def)
  from ne a b show ?thesis unfolding Let_def by blast
qed

section \<open>The offer filter\<close>

lemma str_includes_sublist: "str_includes s q \<longleftrightarrow> sublist q s"
  by (induction s) (simp_all add: sublist_Cons_right)

lemma status_filter_cases:
  "(case sf of AnyStatus \<Rightarrow> True | Only s \<Rightarrow> status o' = s) \<longleftrightarrow>
   (sf = AnyStatus \<or> sf = Only (status o'))"
  by (cases sf) auto

lemma filtered_eq:
  "filtered lower offers query sf = filter (passes_trimmed lower query sf) offers"
proof -
  have "filtered lower offers query sf =
      filter (\<lambda>o'. (lower (trim query) = [] \<or>
           sublist (lower (trim query))
             (lower (projectTitle o' @ '' '' @ holderName o' @ '' '' @ technology o' @
                '' '' @ offer_id o'))) \<and>
          (sf = AnyStatus \<or> sf = Only (status o'))) offers"
    unfolding filtered_def Let_def filter_filter
    by (rule filter_cong) (auto simp: status_filter_cases str_includes_sublist)
  also have "\<dots> = filter (passes_trimmed lower query sf) offers"
    by (rule filter_cong) (auto simp: passes_trimmed_def passes_stated_def)
  finally show ?thesis .
qed

lemma passes_trimmed_eq: "passes_trimmed lower query sf = passes_stated lower (trim query) sf"
  by (rule ext) (simp add: passes_trimmed_def)

lemma passes_trimmed_blank:
  "lower (trim query) = [] \<Longrightarrow>
   passes_trimmed lower query sf o' \<longleftrightarrow> (sf = AnyStatus \<or> sf = Only (status o'))"
  by (simp add: passes_trimmed_def passes_stated_def)

lemma trim_examples:
  "trim ''  '' = []" "trim [CHR 0xC2, CHR 0xA0] = []" "trim '' smart'' = ''smart''"
  "trim '' IoT '' = ''IoT''"
  by (simp_all add: trim_def ws_codes_def strip.simps)

text \<open>
  C4, as stated, fails: the code trims the query before it searches. The query
  \<^verbatim>\<open>" smart"\<close>, with its leading space, occurs in no seed offer's text, yet the filter
  returns the first seed offer, whose title starts with \<^verbatim>\<open>Smart\<close>. The seed offers and
  the query have no cased letter outside ASCII, so \<^verbatim>\<open>toLowerCase\<close> is \<open>ascii_lower\<close> on
  them.
\<close>

theorem filtered_trims_query:
  "filtered ascii_lower seedOffers '' smart'' AnyStatus = [seedOffers ! 0] \<and>
   filter (passes_stated ascii_lower '' smart'' AnyStatus) seedOffers = [] \<and>
   filtered ascii_lower seedOffers '' smart'' AnyStatus \<noteq>
     filter (passes_stated ascii_lower '' smart'' AnyStatus) seedOffers"
proof -
  have "filter (passes_stated ascii_lower ''smart'' AnyStatus) seedOffers = [seedOffers ! 0]"
    by code_simp
  then have a: "filtered ascii_lower seedOffers '' smart'' AnyStatus = [seedOffers ! 0]"
    by (simp add: filtered_eq passes_trimmed_eq trim_examples)
  have b: "filter (passes_stated ascii_lower '' smart'' AnyStatus) seedOffers = []"
    by code_simp
  from a b show ?thesis by simp
qed

text \<open>
  C4, amended. The filter returns, in the collection's order, exactly the offers whose
  status is the filter's (all statuses for \<^verbatim>\<open>all\<close>) and whose title, holder, technology
  and id, joined by spaces, contain the trimmed query, both sides put through
  \<^verbatim>\<open>toLowerCase\<close>; this holds whatever function \<^verbatim>\<open>toLowerCase\<close> is. The trimmed query
  is the query less a run of whitespace characters at each end, and it neither starts nor
  ends with one. A query that is empty once trimmed and lower-cased passes every offer of
  the status; when \<^verbatim>\<open>toLowerCase\<close> maps the empty string to itself, so does every query
  that is empty once trimmed, which is every run of whitespace characters.
\<close>

theorem filtered_spec:
  "filtered lower offers query sf = filter (passes_trimmed lower query sf) offers \<and>
   subseq (filtered lower offers query sf) offers \<and>
   (\<forall>o'. o' \<in> set (filtered lower offers query sf) \<longleftrightarrow>
      o' \<in> set offers \<and> (sf = AnyStatus \<or> sf = Only (status o')) \<and>
      (\<exists>before after.
         lower (projectTitle o' @ '' '' @ holderName o' @ '' '' @ technology o' @ '' '' @
            offer_id o') = before @ lower (trim query) @ after)) \<and>
   (lower (trim query) = [] \<longrightarrow>
      filtered lower offers query sf =
        filter (\<lambda>o'. sf = AnyStatus \<or> sf = Only (status o')) offers) \<and>
   (lower [] = [] \<and> trim query = [] \<longrightarrow>
      filtered lower offers query sf =
        filter (\<lambda>o'. sf = AnyStatus \<or> sf = Only (status o')) offers \<and>
      filtered lower offers query AnyStatus = offers) \<and>
   (lower [] = [] \<and> (\<exists>ws. set ws \<subseteq> set ws_codes \<and> query = concat ws) \<longrightarrow>
      filtered lower offers query sf =
        filter (\<lambda>o'. sf = AnyStatus \<or> sf = Only (status o')) offers \<and>
      filtered lower offers query AnyStatus = offers) \<and>
   (\<exists>a b. set a \<subseteq> set ws_codes \<and> set b \<subseteq> set ws_codes \<and>
      query = concat a @ trim query @ concat b) \<and>
   (\<forall>w \<in> set ws_codes. \<not> prefix w (trim query) \<and> \<not> suffix w (trim query))"
proof -
  have mem: "\<forall>o'. o' \<in> set (filtered lower offers query sf) \<longleftrightarrow>
      o' \<in> set offers \<and> (sf = AnyStatus \<or> sf = Only (status o')) \<and>
      (\<exists>before after.
         lower (projectTitle o' @ '' '' @ holderName o' @ '' '' @ technology o' @ '' '' @
            offer_id o') = before @ lower (trim query) @ after)"
    by (simp add: filtered_eq passes_trimmed_def passes_stated_def sublist_def)
  have emp: "lower (trim query) = [] \<longrightarrow>
      filtered lower offers query sf =
        filter (\<lambda>o'. sf = AnyStatus \<or> sf = Only (status o')) offers"
    by (simp add: filtered_eq passes_trimmed_blank cong: filter_cong)
  have emp': "lower [] = [] \<and> trim query = [] \<longrightarrow>
      filtered lower offers query sf =
        filter (\<lambda>o'. sf = AnyStatus \<or> sf = Only (status o')) offers \<and>
      filtered lower offers query AnyStatus = offers"
    by (simp add: filtered_eq passes_trimmed_blank cong: filter_cong)
  have sub: "subseq (filtered lower offers query sf) offers"
    by (simp add: filtered_eq)
  have blank: "lower [] = [] \<and> (\<exists>ws. set ws \<subseteq> set ws_codes \<and> query = concat ws) \<longrightarrow>
      filtered lower offers query sf =
        filter (\<lambda>o'. sf = AnyStatus \<or> sf = Only (status o')) offers \<and>
      filtered lower offers query AnyStatus = offers"
    using emp' by (simp only: trim_empty_iff)
  have ends: "\<forall>w \<in> set ws_codes. \<not> prefix w (trim query) \<and> \<not> suffix w (trim query)"
    by (simp add: trim_no_ws)
  from mem emp emp' sub filtered_eq [of lower offers query sf] blank trim_decomp [of query] ends
  show ?thesis by blast
qed

theorem filtered_spec_witness:
  "ascii_lower [] = [] \<and> trim ''  '' = [] \<and> trim [CHR 0xC2, CHR 0xA0] = [] \<and>
   filtered ascii_lower seedOffers ''  '' AnyStatus = seedOffers \<and>
   filtered ascii_lower seedOffers [CHR 0xC2, CHR 0xA0] AnyStatus = seedOffers \<and>
   filtered ascii_lower seedOffers
     [CHR 0x20, CHR 0xC2, CHR 0xA0, CHR 0x09, CHR 0xE3, CHR 0x80, CHR 0x80] AnyStatus = seedOffers \<and>
   filtered ascii_lower seedOffers ''  '' (Only Pending) = [seedOffers ! 0, seedOffers ! 2] \<and>
   filtered ascii_lower seedOffers '' IoT '' (Only Declined) = [seedOffers ! 3]"
proof -
  let ?blank = "[CHR 0x20, CHR 0xC2, CHR 0xA0, CHR 0x09, CHR 0xE3, CHR 0x80, CHR 0x80]"
  have l: "ascii_lower [] = []"
    by (simp add: ascii_lower_def)
  note t = trim_examples(1) and n = trim_examples(2)
  have r: "set [[CHR 0x20], [CHR 0xC2, CHR 0xA0], [CHR 0x09], [CHR 0xE3, CHR 0x80, CHR 0x80]]
      \<subseteq> set ws_codes \<and>
    ?blank = concat [[CHR 0x20], [CHR 0xC2, CHR 0xA0], [CHR 0x09], [CHR 0xE3, CHR 0x80, CHR 0x80]]"
    by (simp add: ws_codes_def)
  from filtered_spec [of ascii_lower seedOffers "''  ''" AnyStatus] l t
  have a: "filtered ascii_lower seedOffers ''  '' AnyStatus = seedOffers"
    by blast
  from filtered_spec [of ascii_lower seedOffers "[CHR 0xC2, CHR 0xA0]" AnyStatus] l n
  have a': "filtered ascii_lower seedOffers [CHR 0xC2, CHR 0xA0] AnyStatus = seedOffers"
    by blast
  from filtered_spec [of ascii_lower seedOffers ?blank AnyStatus] l r
  have a'': "filtered ascii_lower seedOffers ?blank AnyStatus = seedOffers"
    by blast
  from filtered_spec [of ascii_lower seedOffers "''  ''" "Only Pending"] l t
  have "filtered ascii_lower seedOffers ''  '' (Only Pending) =
      filter (\<lambda>o'. Only Pending = AnyStatus \<or> Only Pending = Only (status o')) seedOffers"
    by blast
  then have b: "filtered ascii_lower seedOffers ''  '' (Only Pending) =
      [seedOffers ! 0, seedOffers ! 2]"
    by (simp add: seedOffers_def)
  from filtered_spec [of ascii_lower seedOffers "'' IoT ''" "Only Declined"]
  have "filtered ascii_lower seedOffers '' IoT '' (Only Declined) =
      filter (passes_trimmed ascii_lower '' IoT '' (Only Declined)) seedOffers"
    by blast
  moreover have "filter (passes_stated ascii_lower ''IoT'' (Only Declined)) seedOffers =
      [seedOffers ! 3]"
    by code_simp
  ultimately have c: "filtered ascii_lower seedOffers '' IoT '' (Only Declined) = [seedOffers ! 3]"
    by (simp add: passes_trimmed_eq trim_examples)
  from l t n a a' a'' b c show ?thesis by blast
qed

section \<open>Rounding to a double\<close>

lemma expo_ge1:
  assumes "1 \<le> x"
  shows "2 powi (expo x) \<le> x \<and> x < 2 powi (expo x + 1)"
proof -
  let ?k = "\<lfloor>x\<rfloor>"
  have k: "0 < ?k" using assms by simp
  have b: "2 ^ nat (bitlen ?k - 1) \<le> ?k \<and> ?k < 2 ^ nat (bitlen ?k)"
    using bitlen_bounds [OF k] .
  have bpos: "0 < bitlen ?k"
    using k bitlen_eq_zero_iff [of ?k] bitlen_nonneg [of ?k] by linarith
  have e: "expo x = bitlen ?k - 1" using assms by (simp add: expo_def)
  have "(2::rat) powi (bitlen ?k - 1) = of_int (2 ^ nat (bitlen ?k - 1))"
    using bpos by (simp add: power_int_def)
  also have "\<dots> \<le> of_int ?k" using b by (simp only: of_int_le_iff)
  also have "\<dots> \<le> x" by simp
  finally have lo: "2 powi (expo x) \<le> x" by (simp add: e)
  have "?k + 1 \<le> 2 ^ nat (bitlen ?k)" using b by simp
  then have "(of_int (?k + 1) :: rat) \<le> of_int (2 ^ nat (bitlen ?k))"
    by (simp only: of_int_le_iff)
  moreover have "x < of_int (?k + 1)" by linarith
  ultimately have "x < of_int (2 ^ nat (bitlen ?k))" by linarith
  also have "\<dots> = 2 powi (bitlen ?k)" using bpos by (simp add: power_int_def)
  finally have "x < 2 powi (expo x + 1)" by (simp add: e)
  with lo show ?thesis by simp
qed

lemma expo_lt1:
  assumes "0 < x" "x < 1"
  shows "2 powi (expo x) \<le> x \<and> x < 2 powi (expo x + 1)"
proof -
  let ?m = "\<lceil>1 / x\<rceil> - 1"
  have y: "1 < 1 / x" using assms by simp
  then have m: "0 < ?m" by linarith
  have b: "2 ^ nat (bitlen ?m - 1) \<le> ?m \<and> ?m < 2 ^ nat (bitlen ?m)"
    using bitlen_bounds [OF m] .
  have bpos: "0 < bitlen ?m"
    using m bitlen_eq_zero_iff [of ?m] bitlen_nonneg [of ?m] by linarith
  have e: "expo x = - bitlen ?m" using assms by (simp add: expo_def)
  have my: "of_int ?m < 1 / x" "1 / x \<le> of_int (?m + 1)" by linarith+
  have "?m + 1 \<le> 2 ^ nat (bitlen ?m)" using b by simp
  then have "(of_int (?m + 1) :: rat) \<le> of_int (2 ^ nat (bitlen ?m))"
    by (simp only: of_int_le_iff)
  with my(2) have "1 / x \<le> of_int (2 ^ nat (bitlen ?m))" by linarith
  then have "1 / x \<le> 2 ^ nat (bitlen ?m)" by simp
  then have "1 / 2 ^ nat (bitlen ?m) \<le> x"
    using assms(1) by (simp add: field_simps)
  moreover have "(2::rat) powi (- bitlen ?m) = 1 / 2 ^ nat (bitlen ?m)"
    using bpos by (simp add: power_int_def field_simps)
  ultimately have lo: "2 powi (expo x) \<le> x" by (simp add: e)
  have "(of_int (2 ^ nat (bitlen ?m - 1)) :: rat) \<le> of_int ?m"
    using b by (simp only: of_int_le_iff)
  with my(1) have "of_int (2 ^ nat (bitlen ?m - 1)) < 1 / x" by linarith
  then have "2 ^ nat (bitlen ?m - 1) < 1 / x" by simp
  then have "x < 1 / 2 ^ nat (bitlen ?m - 1)"
    using assms(1) by (simp add: field_simps)
  moreover have "(2::rat) powi (- bitlen ?m + 1) = 1 / 2 ^ nat (bitlen ?m - 1)"
    using bpos by (cases "bitlen ?m = 1") (simp_all add: power_int_def field_simps)
  ultimately have "x < 2 powi (expo x + 1)" by (simp add: e)
  with lo show ?thesis by simp
qed

lemma expo_bounds: "0 < x \<Longrightarrow> 2 powi (expo x) \<le> x \<and> x < 2 powi (expo x + 1)"
  using expo_ge1 expo_lt1 by (cases "1 \<le> x") auto

lemma expo_mono:
  assumes "0 < x" "x \<le> y"
  shows "expo x \<le> expo y"
proof (rule ccontr)
  assume "\<not> expo x \<le> expo y"
  then have "expo y + 1 \<le> expo x" by simp
  then have "(2::rat) powi (expo y + 1) \<le> 2 powi (expo x)"
    by (intro power_int_increasing) simp_all
  moreover have "y < 2 powi (expo y + 1)" using expo_bounds [of y] assms by simp
  moreover have "2 powi (expo x) \<le> x" using expo_bounds [of x] assms by simp
  ultimately show False using assms by linarith
qed

lemma expo_unique:
  assumes "2 powi e \<le> x" "x < 2 powi (e + 1)"
  shows "expo x = e"
proof -
  have "(0::rat) < 2 powi e" by simp
  with assms(1) have x: "0 < x" by linarith
  have b: "2 powi (expo x) \<le> x" "x < 2 powi (expo x + 1)"
    using expo_bounds [OF x] by simp_all
  have 1: "e < expo x + 1"
  proof (rule ccontr)
    assume "\<not> e < expo x + 1"
    then have "(2::rat) powi (expo x + 1) \<le> 2 powi e"
      by (intro power_int_increasing) simp_all
    with assms(1) b(2) show False by linarith
  qed
  have 2: "expo x < e + 1"
  proof (rule ccontr)
    assume "\<not> expo x < e + 1"
    then have "(2::rat) powi (e + 1) \<le> 2 powi (expo x)"
      by (intro power_int_increasing) simp_all
    with assms(2) b(1) show False by linarith
  qed
  from 1 2 show ?thesis by simp
qed

lemma rne_of_int: "rne (of_int k) = k"
  by (simp add: rne_def)

lemma rne_floor_le: "\<lfloor>x\<rfloor> \<le> rne x"
  by (simp add: rne_def Let_def)

lemma rne_le_floor: "rne x \<le> \<lfloor>x\<rfloor> + 1"
  by (simp add: rne_def Let_def)

lemma rne_mono:
  assumes "x \<le> y"
  shows "rne x \<le> rne y"
proof (cases "\<lfloor>x\<rfloor> = \<lfloor>y\<rfloor>")
  case True
  then show ?thesis using assms by (auto simp: rne_def Let_def)
next
  case False
  with assms have "\<lfloor>x\<rfloor> + 1 \<le> \<lfloor>y\<rfloor>"
    using floor_mono [OF assms] by linarith
  then show ?thesis using rne_le_floor [of x] rne_floor_le [of y] by linarith
qed

lemma rne_err: "\<bar>of_int (rne x) - x\<bar> \<le> 1 / 2"
proof -
  have "of_int \<lfloor>x\<rfloor> \<le> x" "x < of_int \<lfloor>x\<rfloor> + 1" by linarith+
  then show ?thesis by (auto simp: rne_def Let_def abs_le_iff)
qed

lemma scale53: "rat_of_int (2 ^ 53) * 2 powi (e - 52) = 2 powi (e + 1)"
proof -
  have "(2::rat) powi (53 + (e - 52)) = 2 powi 53 * 2 powi (e - 52)"
    by (rule power_int_add) simp
  moreover have "53 + (e - 52) = e + 1" by simp
  moreover have "(2::rat) powi 53 = rat_of_int (2 ^ 53)" by (simp add: power_int_def)
  ultimately show ?thesis by (simp only:)
qed

lemma scale52: "rat_of_int (2 ^ 52) * 2 powi (e - 52) = 2 powi e"
proof -
  have "(2::rat) powi (52 + (e - 52)) = 2 powi 52 * 2 powi (e - 52)"
    by (rule power_int_add) simp
  moreover have "52 + (e - 52) = e" by simp
  moreover have "(2::rat) powi 52 = rat_of_int (2 ^ 52)" by (simp add: power_int_def)
  ultimately show ?thesis by (simp only:)
qed

lemma fl_pos_eq:
  "0 < x \<Longrightarrow> fl x = of_int (rne (x / 2 powi (dexp x - 52))) * 2 powi (dexp x - 52)"
  by (simp add: fl_def Let_def)

lemma dexp_pos: "0 < x \<Longrightarrow> dexp x = max (expo x) (- 1022)"
  by (simp add: dexp_def)

lemma dexp_mono: "0 < x \<Longrightarrow> x \<le> y \<Longrightarrow> dexp x \<le> dexp y"
  using expo_mono [of x y] by (simp add: dexp_pos)

lemma fl_nonneg:
  assumes "0 \<le> x"
  shows "0 \<le> fl x"
proof (cases "x = 0")
  case True
  then show ?thesis by (simp add: fl_def)
next
  case False
  with assms have x: "0 < x" by simp
  have "0 \<le> x / 2 powi (dexp x - 52)" using x by simp
  then have "rne 0 \<le> rne (x / 2 powi (dexp x - 52))" by (rule rne_mono)
  then have "0 \<le> rne (x / 2 powi (dexp x - 52))" using rne_of_int [of 0] by simp
  then show ?thesis using x by (simp add: fl_pos_eq)
qed

lemma fl_upper:
  assumes "0 < x"
  shows "fl x \<le> 2 powi (dexp x + 1)"
proof -
  let ?u = "(2::rat) powi (dexp x - 52)"
  have "x < 2 powi (expo x + 1)" using expo_bounds [OF assms] by simp
  also have "\<dots> \<le> 2 powi (dexp x + 1)"
    using assms by (intro power_int_increasing) (simp_all add: dexp_pos)
  finally have "x / ?u \<le> 2 powi (dexp x + 1) / ?u"
    by (simp add: divide_right_mono)
  also have "2 powi (dexp x + 1) / ?u = (2::rat) powi 53"
    by (simp add: power_int_diff [symmetric])
  also have "\<dots> = of_int (2 ^ 53)" by (simp add: power_int_def)
  finally have "rne (x / ?u) \<le> rne (of_int (2 ^ 53))" by (rule rne_mono)
  then have "rne (x / ?u) \<le> 2 ^ 53" by (simp only: rne_of_int)
  then have "(of_int (rne (x / ?u)) :: rat) \<le> of_int (2 ^ 53)" by (simp only: of_int_le_iff)
  then have "of_int (rne (x / ?u)) * ?u \<le> of_int (2 ^ 53) * ?u"
    by (intro mult_right_mono) simp_all
  also have "of_int (2 ^ 53) * ?u = 2 powi (dexp x + 1)" by (rule scale53)
  finally show ?thesis using assms by (simp add: fl_pos_eq)
qed

lemma fl_lower:
  assumes "0 < x" "- 1022 \<le> expo x"
  shows "2 powi (expo x) \<le> fl x"
proof -
  have Ex: "dexp x = expo x" using assms by (simp add: dexp_pos)
  let ?u = "(2::rat) powi (dexp x - 52)"
  have "2 powi (dexp x) \<le> x" using expo_bounds [OF assms(1)] by (simp add: Ex)
  then have "2 powi (dexp x) / ?u \<le> x / ?u" by (simp add: divide_right_mono)
  moreover have "2 powi (dexp x) / ?u = (2::rat) powi 52"
    by (simp add: power_int_diff [symmetric])
  moreover have "(2::rat) powi 52 = of_int (2 ^ 52)" by (simp add: power_int_def)
  ultimately have "of_int (2 ^ 52) \<le> x / ?u" by simp
  then have "rne (of_int (2 ^ 52)) \<le> rne (x / ?u)" by (rule rne_mono)
  then have "2 ^ 52 \<le> rne (x / ?u)" by (simp only: rne_of_int)
  then have "(of_int (2 ^ 52) :: rat) \<le> of_int (rne (x / ?u))" by (simp only: of_int_le_iff)
  then have "of_int (2 ^ 52) * ?u \<le> of_int (rne (x / ?u)) * ?u"
    by (intro mult_right_mono) simp_all
  moreover have "of_int (2 ^ 52) * ?u = 2 powi (dexp x)" by (rule scale52)
  moreover have "fl x = of_int (rne (x / ?u)) * ?u" by (rule fl_pos_eq [OF assms(1)])
  ultimately have "2 powi (dexp x) \<le> fl x" by (simp only:)
  then show ?thesis by (simp only: Ex)
qed

lemma fl_mono_pos:
  assumes "0 < x" "x \<le> y"
  shows "fl x \<le> fl y"
proof (cases "dexp x = dexp y")
  case True
  let ?u = "(2::rat) powi (dexp y - 52)"
  have "x / ?u \<le> y / ?u" using assms by (simp add: divide_right_mono)
  then have "rne (x / ?u) \<le> rne (y / ?u)" by (rule rne_mono)
  then have "(of_int (rne (x / ?u)) :: rat) \<le> of_int (rne (y / ?u))"
    by (simp only: of_int_le_iff)
  then have "of_int (rne (x / ?u)) * ?u \<le> of_int (rne (y / ?u)) * ?u"
    by (intro mult_right_mono) simp_all
  then show ?thesis using assms True by (simp add: fl_pos_eq)
next
  case False
  with dexp_mono [OF assms] have lt: "dexp x + 1 \<le> dexp y" by simp
  have y: "0 < y" using assms by simp
  have "- 1022 \<le> dexp x" using assms by (simp add: dexp_pos)
  with lt y have Ey: "dexp y = expo y" "- 1022 \<le> expo y" by (auto simp: dexp_pos)
  have "fl x \<le> 2 powi (dexp x + 1)" by (rule fl_upper [OF assms(1)])
  also have "\<dots> \<le> 2 powi (expo y)"
    using lt Ey by (intro power_int_increasing) simp_all
  also have "\<dots> \<le> fl y" by (rule fl_lower [OF y Ey(2)])
  finally show ?thesis .
qed

lemma fl_mono: "0 \<le> x \<Longrightarrow> x \<le> y \<Longrightarrow> fl x \<le> fl y"
  using fl_mono_pos [of x y] fl_nonneg [of y] by (cases "x = 0") (simp_all add: fl_def)

lemma expo_normal:
  assumes "2 powi (- 1022) \<le> x"
  shows "- 1022 \<le> expo x"
proof (rule ccontr)
  assume "\<not> - 1022 \<le> expo x"
  then have "(2::rat) powi (expo x + 1) \<le> 2 powi (- 1022)"
    by (intro power_int_increasing) simp_all
  moreover have "(0::rat) < 2 powi (- 1022)" by simp
  then have "0 < x" using assms by linarith
  then have "x < 2 powi (expo x + 1)" using expo_bounds by simp
  ultimately show False using assms by linarith
qed

lemma fl_err:
  assumes "2 powi (- 1022) \<le> x"
  shows "\<bar>fl x - x\<bar> \<le> x / 2 ^ 53"
proof -
  have "(0::rat) < 2 powi (- 1022)" by simp
  then have x: "0 < x" using assms by linarith
  have n: "- 1022 \<le> expo x" by (rule expo_normal [OF assms])
  have Ex: "dexp x = expo x" using x n by (simp add: dexp_pos)
  let ?u = "(2::rat) powi (dexp x - 52)"
  have u: "0 < ?u" by simp
  have s: "of_int (2 ^ 52) * ?u = 2 powi (dexp x)" by (rule scale52)
  have "fl x - x = (of_int (rne (x / ?u)) - x / ?u) * ?u"
    using x u by (simp add: fl_pos_eq field_simps)
  then have "\<bar>fl x - x\<bar> = \<bar>of_int (rne (x / ?u)) - x / ?u\<bar> * ?u"
    using u by (simp add: abs_mult)
  also have "\<dots> \<le> 1 / 2 * ?u"
    using rne_err [of "x / ?u"] u by (intro mult_right_mono) simp_all
  also have "1 / 2 * ?u = (of_int (2 ^ 52) * ?u) / 2 ^ 53"
    by simp
  also have "\<dots> = 2 powi (dexp x) / 2 ^ 53"
    by (simp only: s)
  also have "\<dots> \<le> x / 2 ^ 53"
    using expo_bounds [OF x] by (simp add: Ex divide_right_mono)
  finally show ?thesis .
qed

lemma fl_representable:
  assumes "0 < x" "x / 2 powi (dexp x - 52) = of_int k"
  shows "fl x = x"
proof -
  have "fl x = of_int k * 2 powi (dexp x - 52)"
    using assms by (simp add: fl_pos_eq rne_of_int)
  also have "\<dots> = x"
    using assms(2) by (simp add: field_simps)
  finally show ?thesis .
qed

lemma expo_below_53:
  assumes "1 \<le> x" "x < 2 ^ 53"
  shows "0 \<le> expo x \<and> expo x \<le> 52"
proof -
  have x: "0 < x" using assms by simp
  have k: "0 < \<lfloor>x\<rfloor>" using assms by simp
  have "0 < bitlen \<lfloor>x\<rfloor>"
    using k bitlen_eq_zero_iff [of "\<lfloor>x\<rfloor>"] bitlen_nonneg [of "\<lfloor>x\<rfloor>"] by linarith
  then have lo: "0 \<le> expo x" using assms by (simp add: expo_def)
  have hi: "expo x \<le> 52"
  proof (rule ccontr)
    assume "\<not> expo x \<le> 52"
    then have "(2::rat) powi 53 \<le> 2 powi (expo x)"
      by (intro power_int_increasing) simp_all
    moreover have "(2::rat) powi 53 = 2 ^ 53" by (simp add: power_int_def)
    moreover have "2 powi (expo x) \<le> x" using expo_bounds [OF x] by simp
    ultimately show False using assms(2) by linarith
  qed
  from lo hi show ?thesis by simp
qed

lemma fl_nat_exact:
  assumes "n < 2 ^ 53"
  shows "fl (of_nat n) = of_nat n"
proof (cases "n = 0")
  case True
  then show ?thesis by (simp add: fl_def)
next
  case False
  let ?x = "of_nat n :: rat"
  have x1: "1 \<le> ?x" using False by simp
  have xlt: "?x < 2 ^ 53"
  proof -
    have "?x < of_nat (2 ^ 53)" using assms by (simp only: of_nat_less_iff)
    then show ?thesis by simp
  qed
  have e: "0 \<le> expo ?x" "expo ?x \<le> 52"
    using expo_below_53 [OF x1 xlt] by simp_all
  have Ex: "dexp ?x = expo ?x" using x1 e by (simp add: dexp_pos)
  have "(2::rat) powi (expo ?x - 52) * 2 powi (52 - expo ?x) = 2 powi 0"
    by (simp add: power_int_add [symmetric])
  moreover have "(2::rat) powi (52 - expo ?x) = 2 ^ nat (52 - expo ?x)"
    using e by (simp add: power_int_def)
  ultimately have u: "(2::rat) powi (expo ?x - 52) * 2 ^ nat (52 - expo ?x) = 1"
    by simp
  have "?x / 2 powi (expo ?x - 52) = ?x * 2 ^ nat (52 - expo ?x)"
    using u by (simp add: field_simps)
  also have "\<dots> = of_int (int n * 2 ^ nat (52 - expo ?x))"
    by simp
  finally have r: "?x / 2 powi (dexp ?x - 52) = of_int (int n * 2 ^ nat (52 - expo ?x))"
    by (simp only: Ex)
  have "0 < ?x" using x1 by linarith
  then show ?thesis using r by (rule fl_representable)
qed

lemma fl_Nats_exact:
  assumes "x \<in> \<nat>" "x < 2 ^ 53"
  shows "fl x = x"
proof -
  from assms(1) obtain n where n: "x = of_nat n" by (auto simp: Nats_def)
  with assms(2) have "(of_nat n :: rat) < of_nat (2 ^ 53)" by simp
  then have "n < 2 ^ 53" by (simp only: of_nat_less_iff)
  then show ?thesis using n by (simp add: fl_nat_exact)
qed

lemma fl_1: "fl 1 = 1"
  using fl_nat_exact [of 1] by simp

lemma fl_100: "fl 100 = 100"
  using fl_nat_exact [of 100] by simp

lemma Math_round_mono: "x \<le> y \<Longrightarrow> Math_round x \<le> Math_round y"
  by (simp add: Math_round_def floor_mono)

lemma Math_round_of_int: "Math_round (of_int k) = k"
  by (simp add: Math_round_def floor_eq_iff)

text \<open>
  A value within \<open>1 / (2 d)\<close> of the fraction \<open>p / d\<close> rounds to an integer that is
  nearest to \<open>p / d\<close>.
\<close>

lemma nearest_of_close:
  fixes p d :: int and v' :: rat
  assumes d: "0 < d" and close: "\<bar>v' - of_int p / of_int d\<bar> < 1 / (2 * of_int d)"
  shows "\<bar>of_int (Math_round v') - of_int p / of_int d\<bar> \<le> (1 / 2 :: rat)"
proof -
  let ?k = "Math_round v'"
  let ?v = "of_int p / of_int d :: rat"
  have dr: "(0::rat) < of_int d" using d by simp
  have k: "of_int ?k \<le> v' + 1 / 2" "v' + 1 / 2 < of_int ?k + 1"
    unfolding Math_round_def by linarith+
  have up: "of_int ?k - ?v \<le> 1 / 2"
  proof (rule ccontr)
    assume "\<not> of_int ?k - ?v \<le> 1 / 2"
    then have "?v < of_int ?k - 1 / 2" by linarith
    then have "of_int p < (of_int ?k - 1 / 2) * (of_int d :: rat)"
      using dr by (simp add: pos_divide_less_eq)
    then have "(of_int (2 * p) :: rat) < of_int ((2 * ?k - 1) * d)"
      by (simp add: algebra_simps)
    then have "2 * p < (2 * ?k - 1) * d" by (simp only: of_int_less_iff)
    then have "2 * p + 1 \<le> (2 * ?k - 1) * d" by simp
    then have "(of_int (2 * p + 1) :: rat) \<le> of_int ((2 * ?k - 1) * d)"
      by (simp only: of_int_le_iff)
    then have "2 * of_int p + 1 \<le> (2 * of_int ?k - 1) * (of_int d :: rat)" by simp
    then have "?v + 1 / (2 * of_int d) \<le> of_int ?k - 1 / 2"
      using dr by (simp add: field_simps)
    with k(1) close show False by (simp add: abs_less_iff)
  qed
  have lo: "?v - of_int ?k \<le> 1 / 2"
  proof (rule ccontr)
    assume "\<not> ?v - of_int ?k \<le> 1 / 2"
    then have "of_int ?k + 1 / 2 < ?v" by linarith
    then have "(of_int ?k + 1 / 2) * (of_int d :: rat) < of_int p"
      using dr by (simp add: pos_less_divide_eq)
    then have "(of_int ((2 * ?k + 1) * d) :: rat) < of_int (2 * p)"
      by (simp add: algebra_simps)
    then have "(2 * ?k + 1) * d < 2 * p" by (simp only: of_int_less_iff)
    then have "(2 * ?k + 1) * d + 1 \<le> 2 * p" by simp
    then have "(of_int ((2 * ?k + 1) * d + 1) :: rat) \<le> of_int (2 * p)"
      by (simp only: of_int_le_iff)
    then have "(2 * of_int ?k + 1) * (of_int d :: rat) + 1 \<le> 2 * of_int p" by simp
    then have "of_int ?k + 1 / 2 \<le> ?v - 1 / (2 * of_int d)"
      using dr by (simp add: field_simps)
    with k(2) close show False by (simp add: abs_less_iff)
  qed
  from up lo show ?thesis by linarith
qed

section \<open>Acceptance rate and success rate\<close>

lemma num_of_nat_exact: "n < 2 ^ 53 \<Longrightarrow> num_of_nat n = of_nat n"
  by (simp add: num_of_nat_def fl_nat_exact)

lemma num_of_nat_nonneg: "0 \<le> num_of_nat n"
  by (simp add: num_of_nat_def fl_nonneg)

lemma num_of_nat_mono: "a \<le> t \<Longrightarrow> num_of_nat a \<le> num_of_nat t"
  by (simp add: num_of_nat_def fl_mono)

lemma rate_range:
  assumes "a \<le> t"
  shows "0 \<le> Math_round (dmul (ddiv (num_of_nat a) (num_of_nat t)) 100) \<and>
         Math_round (dmul (ddiv (num_of_nat a) (num_of_nat t)) 100) \<le> 100"
proof -
  let ?q = "num_of_nat a / num_of_nat t"
  have q0: "0 \<le> ?q" by (simp add: num_of_nat_nonneg)
  have q1: "?q \<le> 1"
    using num_of_nat_mono [OF assms] num_of_nat_nonneg [of a]
    by (cases "num_of_nat t = 0") (simp_all add: divide_le_eq_1)
  have d0: "0 \<le> fl ?q" by (rule fl_nonneg [OF q0])
  have d1: "fl ?q \<le> 1" using fl_mono [OF q0 q1] by (simp add: fl_1)
  have m0: "0 \<le> fl (fl ?q * 100)" using d0 by (intro fl_nonneg) simp
  have "fl (fl ?q * 100) \<le> fl 100" using d0 d1 by (intro fl_mono) simp_all
  then have m1: "fl (fl ?q * 100) \<le> 100" by (simp add: fl_100)
  have "Math_round 0 \<le> Math_round (fl (fl ?q * 100))" by (rule Math_round_mono [OF m0])
  moreover have "Math_round (fl (fl ?q * 100)) \<le> Math_round 100" by (rule Math_round_mono [OF m1])
  moreover have "Math_round 0 = 0" "Math_round 100 = 100"
    using Math_round_of_int [of 0] Math_round_of_int [of 100] by simp_all
  ultimately show ?thesis by (simp add: dmul_def ddiv_def)
qed

lemma abs_scale_100:
  fixes x y c :: rat
  assumes "\<bar>x - y\<bar> \<le> c"
  shows "\<bar>x * 100 - 100 * y\<bar> \<le> 100 * c"
proof -
  have "x * 100 - 100 * y = 100 * (x - y)" by (simp add: algebra_simps)
  then have "\<bar>x * 100 - 100 * y\<bar> = 100 * \<bar>x - y\<bar>" by (simp only: abs_mult)
  with assms show ?thesis by simp
qed

lemma rate_nearest:
  assumes "a \<le> t" "0 < t" "t < 2 ^ 32"
  shows "\<bar>of_int (Math_round (dmul (ddiv (num_of_nat a) (num_of_nat t)) 100)) -
          100 * of_nat a / of_nat t\<bar> \<le> (1 / 2 :: rat)"
proof (cases "a = 0")
  case True
  have "Math_round (fl (fl 0 * 100)) = 0"
    using Math_round_of_int [of 0] by (simp add: fl_def)
  then show ?thesis using True
    by (simp add: dmul_def ddiv_def num_of_nat_def fl_def)
next
  case False
  let ?q = "of_nat a / of_nat t :: rat"
  have t53: "t < 2 ^ 53" using assms(3) by (rule less_trans) simp
  then have a53: "a < 2 ^ 53" using assms(1) by simp
  have na: "num_of_nat a = of_nat a" "num_of_nat t = of_nat t"
    using a53 t53 by (simp_all add: num_of_nat_exact)
  have tr: "(0::rat) < of_nat t" using assms(2) by simp
  have "(of_nat t :: rat) < of_nat (2 ^ 32)" using assms(3) by (simp only: of_nat_less_iff)
  then have tlt: "(of_nat t :: rat) < 2 ^ 32" by simp
  have q1: "?q \<le> 1" using assms(1) tr by (simp add: divide_le_eq_1)
  have "(1::rat) \<le> of_nat a" using False by simp
  then have "1 / of_nat t \<le> ?q" using tr by (simp add: divide_right_mono)
  moreover have "1 / 2 ^ 32 < 1 / (of_nat t :: rat)"
    using tr tlt by (simp add: frac_less2)
  ultimately have qlo: "1 / 2 ^ 32 < ?q" by linarith
  have small: "(2::rat) powi (- 1022) \<le> 1 / 2 ^ 32"
  proof -
    have "(2::rat) powi (- 1022) \<le> 2 powi (- 32)"
      by (intro power_int_increasing) simp_all
    also have "(2::rat) powi (- 32) = 1 / 2 ^ 32" by (simp add: power_int_def field_simps)
    finally show ?thesis .
  qed
  have qn: "2 powi (- 1022) \<le> ?q" using small qlo by linarith
  have e1: "\<bar>fl ?q - ?q\<bar> \<le> ?q / 2 ^ 53" by (rule fl_err [OF qn])
  have e1': "\<bar>fl ?q - ?q\<bar> \<le> 1 / 2 ^ 53"
  proof -
    have "?q / 2 ^ 53 \<le> 1 / 2 ^ 53" using q1 by (simp add: divide_right_mono)
    with e1 show ?thesis by linarith
  qed
  have f1: "fl ?q \<le> 1" using fl_mono [of ?q 1] q1 qlo by (simp add: fl_1)
  have flo: "1 / 2 ^ 33 \<le> fl ?q"
  proof -
    have "?q - 1 / 2 ^ 53 \<le> fl ?q" using e1' by linarith
    moreover have "(1::rat) / 2 ^ 33 \<le> 1 / 2 ^ 32 - 1 / 2 ^ 53" by simp
    ultimately show ?thesis using qlo by linarith
  qed
  let ?y = "fl ?q * 100"
  have y100: "?y \<le> 100" using f1 by simp
  have "(2::rat) powi (- 1022) \<le> 1 / 2 ^ 33"
  proof -
    have "(2::rat) powi (- 1022) \<le> 2 powi (- 33)"
      by (intro power_int_increasing) simp_all
    also have "(2::rat) powi (- 33) = 1 / 2 ^ 33" by (simp add: power_int_def field_simps)
    finally show ?thesis .
  qed
  moreover have "0 \<le> fl ?q" by (intro fl_nonneg) simp
  then have "fl ?q \<le> ?y" by simp
  ultimately have yn: "2 powi (- 1022) \<le> ?y" using flo by linarith
  have e2: "\<bar>fl ?y - ?y\<bar> \<le> ?y / 2 ^ 53" by (rule fl_err [OF yn])
  have e2': "\<bar>fl ?y - ?y\<bar> \<le> 100 / 2 ^ 53"
  proof -
    have "?y / 2 ^ 53 \<le> 100 / 2 ^ 53" using y100 by (simp add: divide_right_mono)
    with e2 show ?thesis by linarith
  qed
  have e3: "\<bar>?y - 100 * ?q\<bar> \<le> 100 / 2 ^ 53"
    using abs_scale_100 [OF e1'] by simp
  have tot: "\<bar>fl ?y - 100 * ?q\<bar> \<le> 200 / 2 ^ 53"
    using e2' e3 by linarith
  have "(200::rat) / 2 ^ 53 < 1 / 2 ^ 33" by simp
  moreover have "1 / 2 ^ 33 < 1 / (2 * (of_nat t :: rat))"
    using tr tlt by (simp add: field_simps)
  ultimately have close: "\<bar>fl ?y - 100 * ?q\<bar> < 1 / (2 * (of_nat t :: rat))"
    using tot by linarith
  have "100 * ?q = of_int (int (100 * a)) / of_int (int t)" by simp
  with close have "\<bar>fl ?y - of_int (int (100 * a)) / of_int (int t)\<bar> < 1 / (2 * of_int (int t))"
    by simp
  then have "\<bar>of_int (Math_round (fl ?y)) - of_int (int (100 * a)) / of_int (int t)\<bar> \<le> (1 / 2 :: rat)"
    using assms(2) by (intro nearest_of_close) simp_all
  then show ?thesis by (simp add: dmul_def ddiv_def na)
qed

lemma nearest_is_round:
  fixes v :: rat
  assumes "\<bar>of_int k - v\<bar> \<le> 1 / 2" "frac v \<noteq> 1 / 2"
  shows "k = round v"
proof -
  have f: "v = of_int \<lfloor>v\<rfloor> + frac v" by (simp add: frac_def)
  have "of_int k \<noteq> v + 1 / 2"
  proof
    assume "of_int k = v + 1 / 2"
    then have "v = of_int (k - 1) + 1 / 2" by simp
    then have "frac v = frac (of_int (k - 1) + 1 / 2 :: rat)" by simp
    also have "\<dots> = 1 / 2" by (simp only: frac_unique_iff) simp
    finally show False using assms(2) by simp
  qed
  moreover have "of_int k \<noteq> v - 1 / 2"
  proof
    assume "of_int k = v - 1 / 2"
    then have "v = of_int k + 1 / 2" by simp
    then have "frac v = frac (of_int k + 1 / 2 :: rat)" by simp
    also have "\<dots> = 1 / 2" by (simp only: frac_unique_iff) simp
    finally show False using assms(2) by simp
  qed
  ultimately have "of_int k \<le> v + 1 / 2" "v + 1 / 2 < of_int k + 1"
    using assms(1) by linarith+
  then have "\<lfloor>v + 1 / 2\<rfloor> = k" by (simp add: floor_eq_iff)
  then show ?thesis by (simp add: round_def)
qed

lemma count_status:
  "length (filter (\<lambda>o'. status o' = s) offers) = length (filter (\<lambda>x. x = s) (map status offers))"
  by (simp add: filter_map comp_def)

lemma rate_1_of_4: "Math_round (dmul (ddiv (num_of_nat 1) (num_of_nat 4)) 100) = 25"
  by code_simp

lemma rate_23_of_40: "Math_round (dmul (ddiv (num_of_nat 23) (num_of_nat 40)) 100) = 57"
  by code_simp

lemma tie_offers_counts:
  "length tie_offers = 40" "length (filter (\<lambda>o'. status o' = Accepted) tie_offers) = 23"
  "length (filter (\<lambda>o'. status o' = Pending) tie_offers) = 17"
  "length (filter (\<lambda>o'. status o' = Declined) tie_offers) = 0"
  by (simp add: tie_offers_def, (simp add: count_status, simp add: tie_offers_def comp_def upt_rec [of _ "numeral _"] upt_rec [of _ "Suc _"])+)

lemma rates_agree: "acceptanceRate (DashboardPage offers) = successRate (ReportsPage offers)"
  by (simp add: DashboardPage_def ReportsPage_def Let_def)

lemma acceptanceRate_eq:
  "acceptanceRate (DashboardPage offers) =
     (if offers = [] then 0
      else Math_round (dmul (ddiv (num_of_nat (length (filter (\<lambda>o'. status o' = Accepted) offers)))
                                  (num_of_nat (length offers))) 100))"
  by (simp add: DashboardPage_def Let_def)

text \<open>
  C5, as stated, fails at a tie. With 23 of 40 offers accepted the exact rate is 57.5 per
  cent, which rounds to 58; the code divides first, and the double nearest to 23/40 times
  100 is the double just below 57.5, which \<^verbatim>\<open>Math.round\<close> takes to 57.
\<close>

theorem acceptanceRate_tie:
  "d_accepted (DashboardPage tie_offers) = 23 \<and> d_total (DashboardPage tie_offers) = 40 \<and>
   acceptanceRate (DashboardPage tie_offers) = 57 \<and>
   successRate (ReportsPage tie_offers) = 57 \<and>
   round (of_nat 23 / of_nat 40 * 100 :: rat) = 58"
proof -
  have ne: "tie_offers \<noteq> []" using tie_offers_counts(1) by auto
  have a: "acceptanceRate (DashboardPage tie_offers) = 57"
    using ne by (simp add: acceptanceRate_eq tie_offers_counts rate_23_of_40)
  have r: "round (of_nat 23 / of_nat 40 * 100 :: rat) = 58"
    by (simp add: round_def floor_eq_iff)
  have c: "d_accepted (DashboardPage tie_offers) = 23" "d_total (DashboardPage tie_offers) = 40"
    by (simp_all add: DashboardPage_def Let_def tie_offers_counts)
  from a r c rates_agree [of tie_offers] show ?thesis by simp
qed

text \<open>
  C5, amended. The dashboard's acceptance rate and the reports' success rate are the same
  number: 0 for no offers, and otherwise \<^verbatim>\<open>Math.round\<close> of the double product of the
  double quotient accepted / total and 100. It lies between 0 and 100. For a collection
  an array can hold (fewer than \<open>2^32\<close> offers) it is an integer nearest to the exact
  percentage, so it is the percentage rounded half up unless the percentage lies exactly
  halfway between two integers, where it may be either of them. Offers with the statuses
  pending, accepted, pending, declined give total 4, accepted 1, pending 2, declined 1
  and the rate 25.
\<close>

theorem acceptanceRate_spec:
  "acceptanceRate (DashboardPage offers) = successRate (ReportsPage offers) \<and>
   0 \<le> acceptanceRate (DashboardPage offers) \<and> acceptanceRate (DashboardPage offers) \<le> 100 \<and>
   (offers = [] \<longrightarrow> acceptanceRate (DashboardPage offers) = 0) \<and>
   (offers \<noteq> [] \<longrightarrow>
      acceptanceRate (DashboardPage offers) =
        Math_round (dmul (ddiv (num_of_nat (length (filter (\<lambda>o'. status o' = Accepted) offers)))
                               (num_of_nat (length offers))) 100)) \<and>
   (offers \<noteq> [] \<and> length offers < 2 ^ 32 \<longrightarrow>
      \<bar>of_int (acceptanceRate (DashboardPage offers)) -
        100 * of_nat (length (filter (\<lambda>o'. status o' = Accepted) offers)) / of_nat (length offers)\<bar>
        \<le> (1 / 2 :: rat) \<and>
      (frac (100 * of_nat (length (filter (\<lambda>o'. status o' = Accepted) offers)) /
              of_nat (length offers) :: rat) \<noteq> 1 / 2 \<longrightarrow>
       acceptanceRate (DashboardPage offers) =
         round (100 * of_nat (length (filter (\<lambda>o'. status o' = Accepted) offers)) /
                  of_nat (length offers) :: rat))) \<and>
   (map status offers = [Pending, Accepted, Pending, Declined] \<longrightarrow>
      DashboardPage offers =
        \<lparr> d_accepted = 1, d_pending = 2, d_declined = 1, d_total = 4, acceptanceRate = 25 \<rparr>)"
proof -
  let ?a = "length (filter (\<lambda>o'. status o' = Accepted) offers)"
  let ?t = "length offers"
  have le: "?a \<le> ?t" by simp
  have range: "0 \<le> acceptanceRate (DashboardPage offers) \<and>
      acceptanceRate (DashboardPage offers) \<le> 100"
    using rate_range [OF le] by (simp add: acceptanceRate_eq)
  have empty: "offers = [] \<longrightarrow> acceptanceRate (DashboardPage offers) = 0"
    by (simp add: acceptanceRate_eq)
  have code: "offers \<noteq> [] \<longrightarrow> acceptanceRate (DashboardPage offers) =
      Math_round (dmul (ddiv (num_of_nat ?a) (num_of_nat ?t)) 100)"
    by (simp add: acceptanceRate_eq)
  have near: "offers \<noteq> [] \<and> ?t < 2 ^ 32 \<longrightarrow>
      \<bar>of_int (acceptanceRate (DashboardPage offers)) - 100 * of_nat ?a / of_nat ?t\<bar>
        \<le> (1 / 2 :: rat)"
    using rate_nearest [OF le] by (simp add: acceptanceRate_eq)
  have rnd: "offers \<noteq> [] \<and> ?t < 2 ^ 32 \<longrightarrow>
      frac (100 * of_nat ?a / of_nat ?t :: rat) \<noteq> 1 / 2 \<longrightarrow>
      acceptanceRate (DashboardPage offers) = round (100 * of_nat ?a / of_nat ?t :: rat)"
    using near nearest_is_round by blast
  have seed: "map status offers = [Pending, Accepted, Pending, Declined] \<longrightarrow>
      DashboardPage offers =
        \<lparr> d_accepted = 1, d_pending = 2, d_declined = 1, d_total = 4, acceptanceRate = 25 \<rparr>"
  proof
    assume s: "map status offers = [Pending, Accepted, Pending, Declined]"
    then have "length (map status offers) = 4" by simp
    then have t: "?t = 4" by simp
    have c: "?a = 1" "length (filter (\<lambda>o'. status o' = Pending) offers) = 2"
        "length (filter (\<lambda>o'. status o' = Declined) offers) = 1"
      by (simp_all add: count_status s)
    show "DashboardPage offers =
        \<lparr> d_accepted = 1, d_pending = 2, d_declined = 1, d_total = 4, acceptanceRate = 25 \<rparr>"
      by (simp add: DashboardPage_def Let_def t c rate_1_of_4 [unfolded One_nat_def])
  qed
  from rates_agree [of offers] range empty code near rnd seed show ?thesis by blast
qed

theorem acceptanceRate_spec_witness:
  "seedOffers \<noteq> [] \<and> length seedOffers < 2 ^ 32 \<and>
   map status seedOffers = [Pending, Accepted, Pending, Declined] \<and>
   DashboardPage seedOffers =
     \<lparr> d_accepted = 1, d_pending = 2, d_declined = 1, d_total = 4, acceptanceRate = 25 \<rparr> \<and>
   successRate (ReportsPage seedOffers) = 25 \<and>
   acceptanceRate (DashboardPage []) = 0"
proof -
  have s: "map status seedOffers = [Pending, Accepted, Pending, Declined]"
    by (simp add: seedOffers_def)
  have n: "seedOffers \<noteq> []" "length seedOffers < 2 ^ 32"
    by (simp_all add: seedOffers_def)
  from acceptanceRate_spec [of seedOffers] s
  have d: "DashboardPage seedOffers =
      \<lparr> d_accepted = 1, d_pending = 2, d_declined = 1, d_total = 4, acceptanceRate = 25 \<rparr>"
    by blast
  from acceptanceRate_spec [of seedOffers] d
  have r: "successRate (ReportsPage seedOffers) = 25"
    by simp
  from acceptanceRate_spec [of "[]"]
  have e: "acceptanceRate (DashboardPage []) = 0"
    by blast
  from s n d r e show ?thesis by blast
qed

section \<open>Report aggregates\<close>

lemma sum_list_Nats_nonneg:
  "\<forall>x \<in> set xs. f x \<in> \<nat> \<Longrightarrow> (0::rat) \<le> sum_list (map f xs)"
  by (induction xs) (auto simp: Nats_def)

lemma sum_list_Nats:
  "\<forall>x \<in> set xs. f x \<in> \<nat> \<Longrightarrow> sum_list (map f xs) \<in> (\<nat> :: rat set)"
  by (induction xs) (auto intro: Nats_add)

lemma foldl_dadd_exact:
  fixes f :: "'a \<Rightarrow> rat"
  assumes "\<forall>x \<in> set xs. f x \<in> \<nat>" "acc \<in> \<nat>" "acc + sum_list (map f xs) < 2 ^ 53"
  shows "foldl (\<lambda>acc x. dadd acc (f x)) acc xs = acc + sum_list (map f xs)"
  using assms
proof (induction xs arbitrary: acc)
  case Nil
  then show ?case by simp
next
  case (Cons x xs)
  have rest: "0 \<le> sum_list (map f xs)"
    using Cons.prems(1) by (intro sum_list_Nats_nonneg) simp
  have n: "acc + f x \<in> \<nat>" using Cons.prems by (intro Nats_add) simp_all
  have "acc + f x < 2 ^ 53" using Cons.prems(3) rest by simp
  then have step: "dadd acc (f x) = acc + f x"
    using n by (simp add: dadd_def fl_Nats_exact)
  have "foldl (\<lambda>acc x. dadd acc (f x)) (acc + f x) xs = acc + f x + sum_list (map f xs)"
    using Cons.prems n by (intro Cons.IH) (simp_all add: add.assoc)
  then show ?case by (simp add: step add.assoc)
qed

lemma length_le_sum_list:
  "\<forall>x \<in> set xs. (1::rat) \<le> f x \<Longrightarrow> of_nat (length xs) \<le> sum_list (map f xs)"
  by (induction xs) auto

lemma toFixed1_nonneg:
  assumes "0 \<le> x" "x < 10 ^ 21"
  shows "toFixed1 x = Some (fixed1_digits (nat (Math_round (10 * x))))"
  using assms by (simp add: toFixed1_def Math_round_def)

lemma mean_nearest_tenth:
  fixes s n :: nat
  assumes n: "0 < n" "n \<le> s" and s: "20 * s < 2 ^ 53"
  shows "\<exists>k. toFixed1 (ddiv (of_nat s) (num_of_nat n)) = Some (fixed1_digits k) \<and>
             \<bar>of_nat k / 10 - of_nat s / of_nat n\<bar> \<le> (1 / 20 :: rat)"
proof -
  let ?m = "of_nat s / of_nat n :: rat"
  let ?x = "fl ?m"
  have s53: "s < 2 ^ 53" using s by simp
  then have n53: "n < 2 ^ 53" using n(2) by simp
  have nn: "num_of_nat n = of_nat n" by (rule num_of_nat_exact [OF n53])
  have nr: "(0::rat) < of_nat n" using n(1) by simp
  have m1: "1 \<le> ?m" using n nr by (simp add: le_divide_eq_1)
  have "(1::rat) \<le> of_nat n" using n(1) by simp
  then have ms: "?m \<le> of_nat s" using nr by (simp add: divide_le_eq mult_le_cancel_left1)
  have "(2::rat) powi (- 1022) \<le> 2 powi 0"
    by (intro power_int_increasing) simp_all
  then have "(2::rat) powi (- 1022) \<le> 1" by (simp only: power_int_0_right)
  then have mn: "2 powi (- 1022) \<le> ?m" using m1 by linarith
  have err: "\<bar>?x - ?m\<bar> \<le> ?m / 2 ^ 53" by (rule fl_err [OF mn])
  have x0: "0 \<le> ?x" using m1 by (intro fl_nonneg) simp
  have "?x \<le> fl (of_nat s)" using m1 ms by (intro fl_mono) simp_all
  then have xs: "?x \<le> of_nat s" by (simp add: fl_nat_exact [OF s53])
  have "(of_nat s :: rat) < of_nat (2 ^ 53)" using s53 by (simp only: of_nat_less_iff)
  then have "(of_nat s :: rat) < 2 ^ 53" by simp
  moreover have "(2::rat) ^ 53 < 10 ^ 21" by simp
  ultimately have xlt: "?x < 10 ^ 21" using xs by linarith
  have tf: "toFixed1 ?x = Some (fixed1_digits (nat (Math_round (10 * ?x))))"
    by (rule toFixed1_nonneg [OF x0 xlt])
  have k0: "0 \<le> Math_round (10 * ?x)"
    using x0 Math_round_mono [of 0 "10 * ?x"] Math_round_of_int [of 0] by simp
  have "(of_nat (20 * s) :: rat) < of_nat (2 ^ 53)" using s by (simp only: of_nat_less_iff)
  then have s20: "20 * (of_nat s :: rat) < 2 ^ 53" by simp
  have "\<bar>10 * ?x - 10 * ?m\<bar> \<le> 10 * (?m / 2 ^ 53)"
    using err by linarith
  also have "10 * (?m / 2 ^ 53) = (20 * of_nat s / 2 ^ 53) * (1 / (2 * of_nat n))"
    by simp
  also have "\<dots> < 1 * (1 / (2 * of_nat n))"
    using s20 nr by (intro mult_strict_right_mono) simp_all
  finally have "\<bar>10 * ?x - 10 * ?m\<bar> < 1 / (2 * of_nat n)" by simp
  moreover have "10 * ?m = of_int (int (10 * s)) / of_int (int n)" by simp
  ultimately have "\<bar>10 * ?x - of_int (int (10 * s)) / of_int (int n)\<bar> < 1 / (2 * of_int (int n))"
    by simp
  then have "\<bar>of_int (Math_round (10 * ?x)) - of_int (int (10 * s)) / of_int (int n)\<bar>
      \<le> (1 / 2 :: rat)"
    using n(1) by (intro nearest_of_close) simp_all
  then have "\<bar>of_int (Math_round (10 * ?x)) - 10 * ?m\<bar> \<le> (1 / 2 :: rat)"
    by simp
  moreover have "(of_nat (nat (Math_round (10 * ?x))) :: rat) = of_int (Math_round (10 * ?x))"
    using k0 by simp
  ultimately have "\<bar>of_nat (nat (Math_round (10 * ?x))) / 10 - ?m\<bar> \<le> (1 / 20 :: rat)"
    by linarith
  with tf show ?thesis by (auto simp: ddiv_def nn)
qed

lemma revenue_eq:
  "revenue (ReportsPage offers) =
     foldl (\<lambda>acc o'. dadd acc (budget o')) 0 (filter (\<lambda>o'. status o' = Accepted) offers)"
  by (simp add: ReportsPage_def)

lemma avgDuration_eq:
  "avgDuration (ReportsPage offers) =
     (if offers = [] then Some ''0''
      else toFixed1 (ddiv (foldl (\<lambda>acc o'. dadd acc (timelineMonths o')) 0 offers)
                          (num_of_nat (length offers))))"
  by (simp add: ReportsPage_def)

lemma revenue_exact:
  assumes "\<forall>o' \<in> set offers. status o' = Accepted \<longrightarrow> budget o' \<in> \<nat>"
    "sum_list (map budget (filter (\<lambda>o'. status o' = Accepted) offers)) < 2 ^ 53"
  shows "revenue (ReportsPage offers) =
     sum_list (map budget (filter (\<lambda>o'. status o' = Accepted) offers))"
proof -
  have "foldl (\<lambda>acc o'. dadd acc (budget o')) 0 (filter (\<lambda>o'. status o' = Accepted) offers) =
      0 + sum_list (map budget (filter (\<lambda>o'. status o' = Accepted) offers))"
    using assms by (intro foldl_dadd_exact) simp_all
  then show ?thesis by (simp add: revenue_eq)
qed

lemma avgDuration_nearest:
  assumes ne: "offers \<noteq> []"
    and pos: "\<forall>o' \<in> set offers. timelineMonths o' \<in> \<nat> \<and> 1 \<le> timelineMonths o'"
    and small: "20 * sum_list (map timelineMonths offers) < 2 ^ 53"
  shows "\<exists>k. avgDuration (ReportsPage offers) = Some (fixed1_digits k) \<and>
     \<bar>of_nat k / 10 - sum_list (map timelineMonths offers) / of_nat (length offers)\<bar>
       \<le> (1 / 20 :: rat)"
proof -
  let ?S = "sum_list (map timelineMonths offers)"
  have nat: "\<forall>o' \<in> set offers. timelineMonths o' \<in> \<nat>" using pos by simp
  have "?S \<in> \<nat>" by (rule sum_list_Nats [OF nat])
  then obtain s :: nat where s: "?S = of_nat s" by (auto simp: Nats_def)
  have S0: "0 \<le> ?S" by (rule sum_list_Nats_nonneg [OF nat])
  then have S53: "0 + ?S < 2 ^ 53" using small by simp
  have fold: "foldl (\<lambda>acc o'. dadd acc (timelineMonths o')) 0 offers = of_nat s"
    using foldl_dadd_exact [OF nat _ S53] by (simp add: s)
  have "of_nat (length offers) \<le> ?S" using pos by (intro length_le_sum_list) simp
  then have "(of_nat (length offers) :: rat) \<le> of_nat s" by (simp add: s)
  then have ns: "length offers \<le> s" by (simp only: of_nat_le_iff)
  have n0: "0 < length offers" using ne by simp
  have "(of_nat (20 * s) :: rat) < of_nat (2 ^ 53)" using small by (simp add: s)
  then have s20: "20 * s < 2 ^ 53" by (simp only: of_nat_less_iff)
  from mean_nearest_tenth [OF n0 ns s20]
  show ?thesis using ne by (simp add: avgDuration_eq fold s)
qed

lemma mean_tie_offers_sums:
  "length mean_tie_offers = 20" "sum_list (map timelineMonths mean_tie_offers) = 23"
  by (simp_all add: mean_tie_offers_def comp_def upt_rec [of _ "numeral _"] upt_rec [of _ "Suc _"])

lemma sums_finite_Nats:
  assumes "\<forall>x \<in> set xs. x \<in> \<nat>" "acc \<in> \<nat>" "acc + sum_list xs < 2 ^ 53"
  shows "sums_finite acc xs"
  using assms
proof (induction xs arbitrary: acc)
  case Nil
  then show ?case by simp
next
  case (Cons x xs)
  have x: "x \<in> \<nat>" using Cons.prems(1) by simp
  have x0: "0 \<le> x" using x by (auto simp: Nats_def)
  have a0: "0 \<le> acc" using Cons.prems(2) by (auto simp: Nats_def)
  have rest: "0 \<le> sum_list xs"
    using Cons.prems(1) sum_list_Nats_nonneg [of xs "\<lambda>x. x"] by simp
  have n: "acc + x \<in> \<nat>" using Cons.prems(2) x by (rule Nats_add)
  have lt: "acc + x < 2 ^ 53" using Cons.prems(3) rest by simp
  have step: "dadd acc x = acc + x"
    using n lt by (simp add: dadd_def fl_Nats_exact)
  have big: "(2::rat) ^ 53 < 2 ^ 1024"
    by (rule power_strict_increasing) simp_all
  have "x < 2 ^ 53" using lt a0 by linarith
  then have dx: "is_double x"
    using x x0 big by (simp add: is_double_def fl_Nats_exact)
  have "sums_finite (acc + x) xs"
    using Cons.prems n by (intro Cons.IH) (simp_all add: add.assoc)
  moreover have "\<bar>acc + x\<bar> < 2 ^ 1024" using lt a0 x0 big by linarith
  ultimately show ?case using dx by (simp add: step)
qed

lemma revenue_fold:
  "revenue (ReportsPage offers) =
     foldl dadd 0 (map budget (filter (\<lambda>o'. status o' = Accepted) offers))"
  by (simp add: revenue_eq foldl_map)

lemma avgDuration_fold:
  assumes "offers \<noteq> []" "length offers < 2 ^ 32"
  shows "avgDuration (ReportsPage offers) =
     toFixed1 (ddiv (foldl dadd 0 (map timelineMonths offers)) (of_nat (length offers)))"
proof -
  have "(2::nat) ^ 32 \<le> 2 ^ 53" by (rule power_increasing) simp_all
  then have "length offers < 2 ^ 53" using assms(2) by linarith
  then have "num_of_nat (length offers) = of_nat (length offers)"
    by (rule num_of_nat_exact)
  then show ?thesis using assms(1) by (simp add: avgDuration_eq foldl_map)
qed

lemma toFixed1_below:
  "\<bar>q\<bar> < 10 ^ 21 \<Longrightarrow>
   toFixed1 q = Some ((if q < 0 then ''-'' else []) @ fixed1_digits (nat \<lfloor>10 * \<bar>q\<bar> + 1 / 2\<rfloor>))"
  by (simp add: toFixed1_def)

lemma big_budget_steps:
  "fl 9007199254740992 = 9007199254740992" "fl 1 = 1"
  "dadd 0 9007199254740992 = 9007199254740992"
  "dadd 9007199254740992 1 = 9007199254740992"
  by code_simp+

lemma big_budget_finite: "sums_finite 0 [9007199254740992, 1, 1]"
  by (simp add: is_double_def big_budget_steps)

lemma big_budget_fold: "foldl dadd 0 [9007199254740992, 1, 1] = 9007199254740992"
  by (simp add: big_budget_steps)

text \<open>
  C6, as stated, fails in two ways. Twenty offers of 23 months in all have the mean
  1.15, which rounds to 1.2; the double nearest to 23/20 lies below 1.15, and
  \<^verbatim>\<open>toFixed(1)\<close> prints \<^verbatim>\<open>1.1\<close>. And three accepted offers with the budgets
  \<open>2^53\<close>, 1 and 1 have the sum \<open>2^53 + 2\<close>, while adding them as doubles from the left gives
  \<open>2^53\<close>: each addition of 1 is rounded away.
\<close>

theorem report_aggregates_inexact:
  "avgDuration (ReportsPage mean_tie_offers) = Some ''1.1'' \<and>
   sum_list (map timelineMonths mean_tie_offers) / of_nat (length mean_tie_offers) = 23 / 20 \<and>
   round (10 * (23 / 20) :: rat) = 12 \<and>
   map status big_budget_offers = [Accepted, Accepted, Accepted] \<and>
   revenue (ReportsPage big_budget_offers) = 9007199254740992 \<and>
   sum_list (map budget big_budget_offers) = 9007199254740994"
proof -
  have nat: "\<forall>o' \<in> set mean_tie_offers. timelineMonths o' \<in> \<nat>"
    by (simp add: mean_tie_offers_def)
  have "foldl (\<lambda>acc o'. dadd acc (timelineMonths o')) 0 mean_tie_offers =
      0 + sum_list (map timelineMonths mean_tie_offers)"
    using nat by (intro foldl_dadd_exact) (simp_all add: mean_tie_offers_sums)
  then have fold: "foldl (\<lambda>acc o'. dadd acc (timelineMonths o')) 0 mean_tie_offers = 23"
    by (simp add: mean_tie_offers_sums)
  have ne: "mean_tie_offers \<noteq> []"
    using mean_tie_offers_sums(1) by auto
  have "toFixed1 (ddiv 23 (num_of_nat 20)) = Some ''1.1''"
    by code_simp
  then have a: "avgDuration (ReportsPage mean_tie_offers) = Some ''1.1''"
    using ne by (simp add: avgDuration_eq fold mean_tie_offers_sums)
  have m: "sum_list (map timelineMonths mean_tie_offers) / of_nat (length mean_tie_offers) = 23 / 20"
    by (simp add: mean_tie_offers_sums)
  have r: "round (10 * (23 / 20) :: rat) = 12"
    by (simp add: round_def floor_eq_iff)
  have b: "revenue (ReportsPage big_budget_offers) = 9007199254740992"
    by code_simp
  have s: "sum_list (map budget big_budget_offers) = 9007199254740994"
      "map status big_budget_offers = [Accepted, Accepted, Accepted]"
    by (simp_all add: big_budget_offers_def)
  from a m r b s show ?thesis by simp
qed

text \<open>
  C6, amended. The revenue is the accepted budgets added as doubles from the left, 0 when
  no offer is accepted: this is the code's value whenever the accepted budgets are finite
  doubles and no partial sum overflows. When the accepted budgets are natural numbers
  with a sum below \<open>2^53\<close>, it is their sum. The average duration is \<^verbatim>\<open>"0"\<close> for no
  offers and otherwise \<^verbatim>\<open>toFixed(1)\<close> of the double quotient of the months, added as
  doubles from the left, and the count: whenever the months are finite doubles, no
  partial sum overflows and the quotient is below \<open>10^21\<close> in magnitude, that is the
  sign of the quotient and then the digits of \<open>k / 10\<close> for the \<open>k\<close> nearest to ten times
  its magnitude, a tie going up. When the months are natural numbers, each at least 1,
  with twenty times their sum below \<open>2^53\<close>, it prints \<open>k / 10\<close> for a \<open>k\<close> with \<open>k / 10\<close>
  nearest to the exact mean: the mean rounded half up to one decimal unless the mean lies
  exactly halfway between two such values, where it may be either of them.
\<close>

theorem report_aggregates:
  "(filter (\<lambda>o'. status o' = Accepted) offers = [] \<longrightarrow> revenue (ReportsPage offers) = 0) \<and>
   (offers = [] \<longrightarrow> avgDuration (ReportsPage offers) = Some ''0'') \<and>
   ((\<forall>o' \<in> set offers. status o' = Accepted \<longrightarrow> budget o' \<in> \<nat>) \<and>
    sum_list (map budget (filter (\<lambda>o'. status o' = Accepted) offers)) < 2 ^ 53 \<longrightarrow>
      revenue (ReportsPage offers) =
        sum_list (map budget (filter (\<lambda>o'. status o' = Accepted) offers))) \<and>
   (offers \<noteq> [] \<and> (\<forall>o' \<in> set offers. timelineMonths o' \<in> \<nat> \<and> 1 \<le> timelineMonths o') \<and>
    20 * sum_list (map timelineMonths offers) < 2 ^ 53 \<longrightarrow>
      (\<exists>k. avgDuration (ReportsPage offers) = Some (fixed1_digits k) \<and>
         \<bar>of_nat k / 10 - sum_list (map timelineMonths offers) / of_nat (length offers)\<bar>
           \<le> (1 / 20 :: rat) \<and>
         (frac (10 * (sum_list (map timelineMonths offers) / of_nat (length offers))) \<noteq> 1 / 2 \<longrightarrow>
            int k = round (10 * (sum_list (map timelineMonths offers) / of_nat (length offers)))))) \<and>
   (sums_finite 0 (map budget (filter (\<lambda>o'. status o' = Accepted) offers)) \<longrightarrow>
      revenue (ReportsPage offers) =
        foldl dadd 0 (map budget (filter (\<lambda>o'. status o' = Accepted) offers))) \<and>
   (offers \<noteq> [] \<and> length offers < 2 ^ 32 \<and> sums_finite 0 (map timelineMonths offers) \<and>
    \<bar>ddiv (foldl dadd 0 (map timelineMonths offers)) (of_nat (length offers))\<bar> < 10 ^ 21 \<longrightarrow>
      (let q = ddiv (foldl dadd 0 (map timelineMonths offers)) (of_nat (length offers)) in
       avgDuration (ReportsPage offers) = toFixed1 q \<and>
       avgDuration (ReportsPage offers) =
         Some ((if q < 0 then ''-'' else []) @ fixed1_digits (nat \<lfloor>10 * \<bar>q\<bar> + 1 / 2\<rfloor>))))"
proof -
  let ?m = "sum_list (map timelineMonths offers) / of_nat (length offers)"
  let ?q = "ddiv (foldl dadd 0 (map timelineMonths offers)) (of_nat (length offers))"
  have r0: "filter (\<lambda>o'. status o' = Accepted) offers = [] \<longrightarrow> revenue (ReportsPage offers) = 0"
    by (simp add: revenue_eq)
  have a0: "offers = [] \<longrightarrow> avgDuration (ReportsPage offers) = Some ''0''"
    by (simp add: avgDuration_eq)
  have rev: "(\<forall>o' \<in> set offers. status o' = Accepted \<longrightarrow> budget o' \<in> \<nat>) \<and>
      sum_list (map budget (filter (\<lambda>o'. status o' = Accepted) offers)) < 2 ^ 53 \<longrightarrow>
      revenue (ReportsPage offers) =
        sum_list (map budget (filter (\<lambda>o'. status o' = Accepted) offers))"
    using revenue_exact by blast
  have avg: "offers \<noteq> [] \<and> (\<forall>o' \<in> set offers. timelineMonths o' \<in> \<nat> \<and> 1 \<le> timelineMonths o') \<and>
      20 * sum_list (map timelineMonths offers) < 2 ^ 53 \<longrightarrow>
      (\<exists>k. avgDuration (ReportsPage offers) = Some (fixed1_digits k) \<and>
         \<bar>of_nat k / 10 - ?m\<bar> \<le> (1 / 20 :: rat) \<and>
         (frac (10 * ?m) \<noteq> 1 / 2 \<longrightarrow> int k = round (10 * ?m)))"
  proof
    assume h: "offers \<noteq> [] \<and>
      (\<forall>o' \<in> set offers. timelineMonths o' \<in> \<nat> \<and> 1 \<le> timelineMonths o') \<and>
      20 * sum_list (map timelineMonths offers) < 2 ^ 53"
    then obtain k where k: "avgDuration (ReportsPage offers) = Some (fixed1_digits k)"
        "\<bar>of_nat k / 10 - ?m\<bar> \<le> (1 / 20 :: rat)"
      using avgDuration_nearest [of offers] by blast
    have "(of_int (int k) :: rat) = of_nat k" by simp
    then have "\<bar>of_int (int k) - 10 * ?m\<bar> \<le> (1 / 2 :: rat)"
      using k(2) by linarith
    then have "frac (10 * ?m) \<noteq> 1 / 2 \<longrightarrow> int k = round (10 * ?m)"
      using nearest_is_round [of "int k" "10 * ?m"] by blast
    with k show "\<exists>k. avgDuration (ReportsPage offers) = Some (fixed1_digits k) \<and>
         \<bar>of_nat k / 10 - ?m\<bar> \<le> (1 / 20 :: rat) \<and>
         (frac (10 * ?m) \<noteq> 1 / 2 \<longrightarrow> int k = round (10 * ?m))"
      by blast
  qed
  have fold: "sums_finite 0 (map budget (filter (\<lambda>o'. status o' = Accepted) offers)) \<longrightarrow>
      revenue (ReportsPage offers) =
        foldl dadd 0 (map budget (filter (\<lambda>o'. status o' = Accepted) offers))"
    by (simp add: revenue_fold)
  have quot: "offers \<noteq> [] \<and> length offers < 2 ^ 32 \<and> sums_finite 0 (map timelineMonths offers) \<and>
      \<bar>?q\<bar> < 10 ^ 21 \<longrightarrow>
      (let q = ?q in
       avgDuration (ReportsPage offers) = toFixed1 q \<and>
       avgDuration (ReportsPage offers) =
         Some ((if q < 0 then ''-'' else []) @ fixed1_digits (nat \<lfloor>10 * \<bar>q\<bar> + 1 / 2\<rfloor>)))"
  proof
    assume h: "offers \<noteq> [] \<and> length offers < 2 ^ 32 \<and>
      sums_finite 0 (map timelineMonths offers) \<and> \<bar>?q\<bar> < 10 ^ 21"
    then have a: "avgDuration (ReportsPage offers) = toFixed1 ?q"
      by (simp add: avgDuration_fold)
    from h have "toFixed1 ?q =
        Some ((if ?q < 0 then ''-'' else []) @ fixed1_digits (nat \<lfloor>10 * \<bar>?q\<bar> + 1 / 2\<rfloor>))"
      by (intro toFixed1_below) simp
    with a show "let q = ?q in
       avgDuration (ReportsPage offers) = toFixed1 q \<and>
       avgDuration (ReportsPage offers) =
         Some ((if q < 0 then ''-'' else []) @ fixed1_digits (nat \<lfloor>10 * \<bar>q\<bar> + 1 / 2\<rfloor>))"
      unfolding Let_def by simp
  qed
  from r0 a0 rev avg fold quot show ?thesis by blast
qed

theorem report_aggregates_witness:
  "(let both = updateOffer ''OF-1029'' (status_patch Accepted) seedOffers in
    seedOffers \<noteq> [] \<and>
    sum_list (map budget (filter (\<lambda>o'. status o' = Accepted) seedOffers)) = 2200000 \<and>
    revenue (ReportsPage seedOffers) = 2200000 \<and>
    sum_list (map timelineMonths seedOffers) / of_nat (length seedOffers) = 23 / 4 \<and>
    (\<exists>k. avgDuration (ReportsPage seedOffers) = Some (fixed1_digits k) \<and>
       \<bar>of_nat k / 10 - 23 / 4\<bar> \<le> (1 / 20 :: rat)) \<and>
    avgDuration (ReportsPage seedOffers) = Some ''5.8'' \<and>
    map status both = [Accepted, Accepted, Pending, Declined] \<and>
    map budget (filter (\<lambda>o'. status o' = Accepted) both) = [1850000, 2200000] \<and>
    revenue (ReportsPage both) = foldl dadd 0 [1850000, 2200000] \<and>
    revenue (ReportsPage both) = 4050000 \<and>
    map budget (filter (\<lambda>o'. status o' = Accepted) big_budget_offers) =
      [9007199254740992, 1, 1] \<and>
    sums_finite 0 [9007199254740992, 1, 1] \<and>
    revenue (ReportsPage big_budget_offers) = foldl dadd 0 [9007199254740992, 1, 1] \<and>
    revenue (ReportsPage big_budget_offers) = 9007199254740992 \<and>
    length mean_tie_offers = 20 \<and>
    foldl dadd 0 (map timelineMonths mean_tie_offers) = 23 \<and>
    avgDuration (ReportsPage mean_tie_offers) = toFixed1 (ddiv 23 20) \<and>
    avgDuration (ReportsPage mean_tie_offers) = Some ''1.1'' \<and>
    revenue (ReportsPage []) = 0 \<and> avgDuration (ReportsPage []) = Some ''0'')"
proof -
  let ?both = "updateOffer ''OF-1029'' (status_patch Accepted) seedOffers"
  have ne: "seedOffers \<noteq> []" by (simp add: seedOffers_def)
  have hb: "\<forall>o' \<in> set seedOffers. status o' = Accepted \<longrightarrow> budget o' \<in> \<nat>"
    by (simp add: seedOffers_def)
  have sb: "sum_list (map budget (filter (\<lambda>o'. status o' = Accepted) seedOffers)) = 2200000"
    by (simp add: seedOffers_def)
  have ht: "\<forall>o' \<in> set seedOffers. timelineMonths o' \<in> \<nat> \<and> 1 \<le> timelineMonths o'"
    by (simp add: seedOffers_def)
  have st: "sum_list (map timelineMonths seedOffers) = 23" "length seedOffers = 4"
    by (simp_all add: seedOffers_def)
  note t = report_aggregates [of seedOffers]
  from t hb sb have rev: "revenue (ReportsPage seedOffers) = 2200000"
    by simp
  from t ne ht st have avg: "\<exists>k. avgDuration (ReportsPage seedOffers) = Some (fixed1_digits k) \<and>
      \<bar>of_nat k / 10 - 23 / 4\<bar> \<le> (1 / 20 :: rat)"
    by auto
  have str: "avgDuration (ReportsPage seedOffers) = Some ''5.8''"
    by code_simp
  have bs: "map status ?both = [Accepted, Accepted, Pending, Declined]"
    by (simp add: seedOffers_def updateOffer_def spread_def status_patch_def empty_patch_def orElse_def)
  have bb: "map budget (filter (\<lambda>o'. status o' = Accepted) ?both) = [1850000, 2200000]"
    by (simp add: seedOffers_def updateOffer_def spread_def status_patch_def empty_patch_def orElse_def)
  have bn: "\<forall>x \<in> set [1850000, 2200000 :: rat]. x \<in> \<nat>"
    by simp
  have bf: "sums_finite 0 [1850000, 2200000]"
    using bn by (rule sums_finite_Nats) simp_all
  note u = report_aggregates [of ?both]
  from u bf have brev: "revenue (ReportsPage ?both) = foldl dadd 0 [1850000, 2200000]"
    by (simp only: bb)
  have bnat: "\<forall>o' \<in> set ?both. status o' = Accepted \<longrightarrow> budget o' \<in> \<nat>"
    by (simp add: seedOffers_def updateOffer_def spread_def status_patch_def empty_patch_def orElse_def)
  have bsum: "sum_list (map budget (filter (\<lambda>o'. status o' = Accepted) ?both)) = 4050000"
    by (simp add: bb)
  from u bnat bsum have bex: "revenue (ReportsPage ?both) = 4050000"
    by simp
  have gb: "map budget (filter (\<lambda>o'. status o' = Accepted) big_budget_offers) =
      [9007199254740992, 1, 1]"
    by (simp add: big_budget_offers_def)
  note v = report_aggregates [of big_budget_offers]
  from v big_budget_finite
  have grev: "revenue (ReportsPage big_budget_offers) = foldl dadd 0 [9007199254740992, 1, 1]"
    by (simp only: gb)
  then have gval: "revenue (ReportsPage big_budget_offers) = 9007199254740992"
    by (simp only: big_budget_fold)
  have mn: "\<forall>x \<in> set (map timelineMonths mean_tie_offers). x \<in> \<nat>"
    by (auto simp: mean_tie_offers_def)
  have ms: "sum_list (map timelineMonths mean_tie_offers) = 23"
    by (rule mean_tie_offers_sums(2))
  have mf: "sums_finite 0 (map timelineMonths mean_tie_offers)"
    using mn by (rule sums_finite_Nats) (simp_all add: ms)
  have "foldl (\<lambda>acc x. dadd acc x) 0 (map timelineMonths mean_tie_offers) =
      0 + sum_list (map (\<lambda>x. x) (map timelineMonths mean_tie_offers))"
    using mn by (intro foldl_dadd_exact) (simp_all add: ms)
  then have mfold: "foldl dadd 0 (map timelineMonths mean_tie_offers) = 23"
    by (simp add: ms)
  have mne: "mean_tie_offers \<noteq> []" "length mean_tie_offers < 2 ^ 32"
    using mean_tie_offers_sums(1) by auto
  have mstr: "toFixed1 (ddiv 23 20) = Some ''1.1''"
    by code_simp
  then have mq: "\<bar>ddiv 23 20\<bar> < 10 ^ 21"
    by (simp add: toFixed1_def split: if_splits)
  note w = report_aggregates [of mean_tie_offers]
  from w mne mf mq have mavg: "avgDuration (ReportsPage mean_tie_offers) = toFixed1 (ddiv 23 20)"
    by (simp add: mfold mean_tie_offers_sums(1) Let_def)
  from report_aggregates [of "[]"]
  have e: "revenue (ReportsPage []) = 0" "avgDuration (ReportsPage []) = Some ''0''"
    by simp_all
  from ne sb rev st avg str bs bb brev bex gb big_budget_finite grev gval
    mean_tie_offers_sums(1) mfold mavg mstr e
  show ?thesis unfolding Let_def by simp
qed

end
